theory Spec2Isabelle
  imports Main "HOL-Library.AList" "HOL-Library.Sublist" "HOL-Library.Word"
begin

section \<open>The client connection multiplexer (code/client/conn/conn.go)\<close>

text \<open>
  A shallow embedding of \<^verbatim>\<open>conn.go\<close>: the connection record, its construction with the
  handshake, the read loop that routes frames to per-link channels, the write loop, the
  link registry and the sweep of the drop map. Each goroutine's loop body is a function
  from the state and the answers of the outside world (what the socket returned, which
  case of a \<^verbatim>\<open>select\<close> fired, what the clock said) to the next state; a loop is the
  iteration of its body over the list of those answers.
\<close>

subsection \<open>Time\<close>

text \<open>Go's \<^verbatim>\<open>time.Time\<close> and \<^verbatim>\<open>time.Duration\<close>, both counted in nanoseconds.\<close>

type_synonym time = int
type_synonym duration = int

definition time_Second :: duration where
  "time_Second = 1000000000"

definition time_Minute :: duration where
  "time_Minute = 60 * time_Second"

definition time_Add :: "time \<Rightarrow> duration \<Rightarrow> time" where
  "time_Add t d = t + d"

definition time_After :: "time \<Rightarrow> time \<Rightarrow> bool" where
  \<comment> \<open>\<^verbatim>\<open>t.After(u)\<close>: t is strictly later than u\<close>
  "time_After t u = (u < t)"

subsection \<open>Messages and the configuration\<close>

type_synonym byte = "8 word"

text \<open>
  Modelled from the spec: the declaration of \<^verbatim>\<open>network.Msg\<close> is not in \<^verbatim>\<open>conn.go\<close>. The
  spec gives a frame "a type (handshake, keepalive, data, ...), a link ID, a sender
  identity, and a payload"; \<^verbatim>\<open>conn.go\<close> itself names the types \<^verbatim>\<open>Msg_handshake\<close> and
  \<^verbatim>\<open>Msg_keepalive\<close>, the fields \<^verbatim>\<open>XType\<close>, \<^verbatim>\<open>From\<close>, \<^verbatim>\<open>To\<close>, \<^verbatim>\<open>Payload\<close>, the link ID
  and the handshake payload \<^verbatim>\<open>Msg_Hsp\<close> with its field \<^verbatim>\<open>Enc\<close>. Every other frame type
  is \<open>Msg_other n\<close>.
\<close>

datatype msg_type = Msg_handshake | Msg_keepalive | Msg_other nat

datatype payload = Payload_nil | Msg_Hsp "byte list" | Payload_other "byte list"

record Msg =
  XType :: msg_type
  From :: string
  To :: string
  LinkId :: string
  Payload :: payload

text \<open>
  Modelled from the spec: \<^verbatim>\<open>global.Configure\<close> is declared outside \<^verbatim>\<open>conn.go\<close>; these
  are the fields \<^verbatim>\<open>conn.go\<close> reads ("server address, TLS flag, client identity,
  encryption key material, read/write timeout durations").
\<close>

record Configure =
  Server :: string
  UseSSL :: bool
  ID :: string
  Enc :: "byte list"
  ReadTimeout :: duration
  WriteTimeout :: duration

subsection \<open>Channels\<close>

text \<open>
  A buffered Go channel: its capacity and the messages waiting in it, oldest first.
  A nil channel is \<open>None\<close>.
\<close>

record chan =
  cap :: nat
  buf :: "Msg list"

definition make_chan :: "nat \<Rightarrow> chan" where
  "make_chan n = \<lparr>cap = n, buf = []\<rparr>"

text \<open>
  What a blocking operation does in the state it meets: it completes, it waits for
  another goroutine, or it can never complete.
\<close>

datatype 'a blocking = Done 'a | Blocked | Blocked_forever

fun chan_send :: "chan option \<Rightarrow> Msg \<Rightarrow> chan blocking" where
  "chan_send None m = Blocked_forever"
| "chan_send (Some ch) m =
     (if length (buf ch) < cap ch then Done (ch\<lparr>buf := buf ch @ [m]\<rparr>) else Blocked)"

fun chan_recv :: "chan option \<Rightarrow> (Msg \<times> chan) blocking" where
  "chan_recv None = Blocked_forever"
| "chan_recv (Some ch) =
     (case buf ch of [] \<Rightarrow> Blocked | m # ms \<Rightarrow> Done (m, ch\<lparr>buf := ms\<rparr>))"

subsection \<open>The physical link\<close>

text \<open>
  Modelled from the spec: \<^verbatim>\<open>network.Conn\<close> is declared outside \<^verbatim>\<open>conn.go\<close> ("wraps the
  raw socket ... exposes framed read/write primitives with timeouts, and closes on
  demand"). The model keeps what was handed to \<^verbatim>\<open>WriteMessage\<close>, with the timeout of each
  call, and whether \<^verbatim>\<open>Close\<close> was called. Whether a write succeeds is the socket's
  answer, an argument of the model.
\<close>

record netconn =
  secure :: bool
  written :: "(Msg \<times> duration) list"
  closed :: bool

definition NewConn :: "bool \<Rightarrow> netconn" where
  "NewConn tls = \<lparr>secure = tls, written = [], closed = False\<rparr>"

definition WriteMessage ::
  "netconn \<Rightarrow> Msg \<Rightarrow> duration \<Rightarrow> string option \<Rightarrow> string option \<times> netconn" where
  "WriteMessage cn m timeout err = (err, cn\<lparr>written := written cn @ [(m, timeout)]\<rparr>)"

definition Close :: "netconn \<Rightarrow> netconn" where
  "Close cn = cn\<lparr>closed := True\<rparr>"

subsection \<open>The connection\<close>

text \<open>The calls of the logging package, in the order they are made.\<close>

datatype log_entry =
    Error_dial string
  | Error_write_handshake string
  | Info_connected string
  | Error_too_many_timeout
  | Error_read_message string
  | Debug_read_message msg_type string string
  | Error_drop_message msg_type
  | Error_write_message string string
  | Info_add_link string

text \<open>
  \<^verbatim>\<open>type Conn struct\<close>. The two Go maps are association lists read with \<open>map_of\<close> and
  written with \<open>AList.update\<close> and \<open>AList.delete\<close>; \<open>dropT\<close> is the field \<^verbatim>\<open>drop\<close>
  and \<open>write_chan\<close> the field \<^verbatim>\<open>write\<close>; \<open>ctx_done\<close> says whether \<^verbatim>\<open>cancel\<close> was called on the context; \<open>logs\<close> collects the
  log calls.
\<close>

record Conn =
  cfg :: Configure
  conn :: "netconn option"
  read :: "(string \<times> chan) list"
  unknownRead :: chan
  write_chan :: chan
  dropT :: "(string \<times> time) list"
  ctx_done :: bool
  logs :: "log_entry list"

definition logging :: "log_entry \<Rightarrow> Conn \<Rightarrow> Conn" where
  "logging e c = c\<lparr>logs := logs c @ [e]\<rparr>"

definition cancel :: "Conn \<Rightarrow> Conn" where
  "cancel c = c\<lparr>ctx_done := True\<rparr>"

definition close :: "Conn \<Rightarrow> Conn" where
  "close c = (case conn c of None \<Rightarrow> c | Some cn \<Rightarrow> c\<lparr>conn := Some (Close cn)\<rparr>)"

subsection \<open>Construction and handshake\<close>

definition handshake_msg :: "Configure \<Rightarrow> Msg" where
  "handshake_msg cf =
     \<lparr>XType = Msg_handshake, From = ID cf, To = ''server'', LinkId = [],
      Payload = Msg_Hsp (Enc cf)\<rparr>"

definition writeHandshake ::
  "netconn \<Rightarrow> Configure \<Rightarrow> string option \<Rightarrow> string option \<times> netconn" where
  "writeHandshake cn cf err = WriteMessage cn (handshake_msg cf) (5 * time_Second) err"

datatype dial_result = Dial_ok | Dial_error string

definition connect :: "Conn \<Rightarrow> dial_result \<Rightarrow> string option \<Rightarrow> string option \<times> Conn" where
  "connect c dial werr =
     (case dial of
        Dial_error err \<Rightarrow> (Some err, logging (Error_dial err) c)
      | Dial_ok \<Rightarrow>
          (case writeHandshake (NewConn (UseSSL (cfg c))) (cfg c) werr of
             (Some err, cn) \<Rightarrow> (Some err, logging (Error_write_handshake err) c)
           | (None, cn) \<Rightarrow>
               (None, (logging (Info_connected (Server (cfg c))) c)\<lparr>conn := Some cn\<rparr>)))"

datatype goroutine = Go_loopRead | Go_loopWrite | Go_keepalive | Go_checkDrop

text \<open>
  \<^verbatim>\<open>New\<close>. \<^verbatim>\<open>runtime.Assert\<close> panics on an error, so a failed \<^verbatim>\<open>connect\<close> ends \<^verbatim>\<open>New\<close>
  before any \<^verbatim>\<open>go\<close> statement: the result is the error, and the list of goroutines
  started is empty.
\<close>

definition New ::
  "Configure \<Rightarrow> dial_result \<Rightarrow> string option \<Rightarrow> (string + Conn) \<times> goroutine list" where
  "New cf dial werr =
     (case connect \<lparr>cfg = cf, conn = None, read = [], unknownRead = make_chan 1024,
                    write_chan = make_chan 1024, dropT = [], ctx_done = False, logs = []\<rparr>
             dial werr of
        (Some err, c) \<Rightarrow> (Inl err, [])
      | (None, c) \<Rightarrow>
          (Inr (c\<lparr>ctx_done := False\<rparr>),
           [Go_loopRead, Go_loopWrite, Go_keepalive, Go_checkDrop]))"

subsection \<open>The read loop\<close>

fun strings_Contains :: "string \<Rightarrow> string \<Rightarrow> bool" where
  "strings_Contains [] substr = (substr = [])"
| "strings_Contains (c # s) substr =
     (prefix substr (c # s) \<or> strings_Contains s substr)"

text \<open>What \<^verbatim>\<open>ReadMessage\<close> returned: a frame, or an error with its text.\<close>

datatype read_result = Read_ok Msg | Read_error string

text \<open>Which case of the \<^verbatim>\<open>select\<close> in \<^verbatim>\<open>loopRead\<close> fired.\<close>

datatype select_case = Case_send | Case_after | Case_done

text \<open>How one pass through a loop body ends.\<close>

datatype flow = Continue | Return | Waiting

text \<open>
  The channel a frame goes to: \<^verbatim>\<open>ch := conn.read[linkID]; if ch == nil { ch =
  conn.unknownRead }\<close>. A Go channel is a reference; the model names the one chosen and
  reads and writes it through the name.
\<close>

datatype chan_ref = Link_chan string | Unknown_chan

definition route :: "Conn \<Rightarrow> string \<Rightarrow> chan_ref" where
  "route c linkID =
     (case map_of (read c) linkID of None \<Rightarrow> Unknown_chan | Some ch \<Rightarrow> Link_chan linkID)"

fun get_chan :: "Conn \<Rightarrow> chan_ref \<Rightarrow> chan option" where
  "get_chan c (Link_chan l) = map_of (read c) l"
| "get_chan c Unknown_chan = Some (unknownRead c)"

fun set_chan :: "Conn \<Rightarrow> chan_ref \<Rightarrow> chan \<Rightarrow> Conn" where
  "set_chan c (Link_chan l) ch = c\<lparr>read := AList.update l ch (read c)\<rparr>"
| "set_chan c Unknown_chan ch = c\<lparr>unknownRead := ch\<rparr>"

text \<open>
  One pass through the body of \<^verbatim>\<open>for { ... }\<close> in \<^verbatim>\<open>loopRead\<close>, with the local counter
  \<^verbatim>\<open>timeout\<close>. The arguments after the state are the result of \<^verbatim>\<open>ReadMessage\<close>, the case
  of the \<^verbatim>\<open>select\<close> that fires, and the value of \<^verbatim>\<open>time.Now()\<close> in the timeout case. The
  send case can fire only when the channel has room, and the \<^verbatim>\<open>Done\<close> case only once
  the context is cancelled; asked to fire a case that cannot, the pass stays in the
  \<^verbatim>\<open>select\<close> (\<open>Waiting\<close>).
\<close>

fun loopRead_iter ::
  "nat \<Rightarrow> Conn \<Rightarrow> read_result \<Rightarrow> select_case \<Rightarrow> time \<Rightarrow> flow \<times> nat \<times> Conn" where
  "loopRead_iter timeout c (Read_error err) sel now =
     (if strings_Contains err ''i/o timeout'' then
        (if timeout + 1 \<ge> 60
         then (Return, timeout + 1, logging Error_too_many_timeout c)
         else (Continue, timeout + 1, c))
      else (Continue, timeout, logging (Error_read_message err) c))"
| "loopRead_iter timeout c (Read_ok msg) sel now =
     (if XType msg = Msg_keepalive then (Continue, 0, c)
      else
        let c1 = logging (Debug_read_message (XType msg) (LinkId msg) (From msg)) c;
            linkID = LinkId msg
        in if map_of (dropT c1) linkID \<noteq> None then (Continue, 0, c1)
           else
             let ch = route c1 linkID
             in (case sel of
                   Case_send \<Rightarrow>
                     (case chan_send (get_chan c1 ch) msg of
                        Done ch' \<Rightarrow> (Continue, 0, set_chan c1 ch ch')
                      | Blocked \<Rightarrow> (Waiting, 0, c1)
                      | Blocked_forever \<Rightarrow> (Waiting, 0, c1))
                 | Case_after \<Rightarrow>
                     (Continue, 0,
                      (logging (Error_drop_message (XType msg)) c1)
                        \<lparr>dropT := AList.update (LinkId msg) (time_Add now time_Minute)
                                    (dropT c1)\<rparr>)
                 | Case_done \<Rightarrow>
                     (if ctx_done c1 then (Return, 0, c1) else (Waiting, 0, c1))))"

text \<open>
  The loop, over the answers of the outside world for each pass. It stops at the first
  pass that returns (or that stays in its \<^verbatim>\<open>select\<close>); when the list is used up the
  loop is still running (\<open>Continue\<close>).
\<close>

fun loopRead_loop ::
  "nat \<Rightarrow> Conn \<Rightarrow> (read_result \<times> select_case \<times> time) list \<Rightarrow> flow \<times> nat \<times> Conn" where
  "loopRead_loop timeout c [] = (Continue, timeout, c)"
| "loopRead_loop timeout c ((r, sel, now) # ins) =
     (case loopRead_iter timeout c r sel now of
        (Continue, timeout', c') \<Rightarrow> loopRead_loop timeout' c' ins
      | (Return, timeout', c') \<Rightarrow> (Return, timeout', c')
      | (Waiting, timeout', c') \<Rightarrow> (Waiting, timeout', c'))"

text \<open>
  \<^verbatim>\<open>loopRead\<close> with its deferred calls: when the loop returns, \<^verbatim>\<open>conn.cancel()\<close> and then
  \<^verbatim>\<open>conn.close()\<close> run.
\<close>

definition loopRead ::
  "Conn \<Rightarrow> (read_result \<times> select_case \<times> time) list \<Rightarrow> flow \<times> Conn" where
  "loopRead c ins =
     (case loopRead_loop 0 c ins of
        (Return, timeout, c') \<Rightarrow> (Return, close (cancel c'))
      | (fl, timeout, c') \<Rightarrow> (fl, c'))"

subsection \<open>The write loop\<close>

text \<open>Which case of the \<^verbatim>\<open>select\<close> in \<^verbatim>\<open>loopWrite\<close> fired.\<close>

datatype write_case = Case_msg | Case_ctx_done

text \<open>
  One pass through the body of \<^verbatim>\<open>loopWrite\<close>; \<open>werr\<close> is what \<^verbatim>\<open>WriteMessage\<close> returns.
  With nothing queued the receive cannot fire, nor the \<^verbatim>\<open>Done\<close> case before the
  context is cancelled (\<open>Waiting\<close>). \<^verbatim>\<open>conn.conn\<close> is set before
  the loops start; on a nil \<^verbatim>\<open>conn.conn\<close> the call would panic and the loop would end.
\<close>

definition loopWrite_iter :: "Conn \<Rightarrow> write_case \<Rightarrow> string option \<Rightarrow> flow \<times> Conn" where
  "loopWrite_iter c sel werr =
     (case sel of
        Case_ctx_done \<Rightarrow> (if ctx_done c then (Return, c) else (Waiting, c))
      | Case_msg \<Rightarrow>
          (case chan_recv (Some (write_chan c)) of
             Done (msg, q) \<Rightarrow>
               (let c1 = c\<lparr>write_chan := q\<rparr>;
                    msg1 = msg\<lparr>From := ID (cfg c1)\<rparr>
                in case conn c1 of
                     None \<Rightarrow> (Return, c1)
                   | Some cn \<Rightarrow>
                       (case WriteMessage cn msg1 (WriteTimeout (cfg c1)) werr of
                          (Some err, cn') \<Rightarrow>
                            (Continue,
                             logging (Error_write_message (ID (cfg c1)) err)
                               (c1\<lparr>conn := Some cn'\<rparr>))
                        | (None, cn') \<Rightarrow> (Continue, c1\<lparr>conn := Some cn'\<rparr>)))
           | Blocked \<Rightarrow> (Waiting, c)
           | Blocked_forever \<Rightarrow> (Waiting, c)))"

fun loopWrite_loop :: "Conn \<Rightarrow> (write_case \<times> string option) list \<Rightarrow> flow \<times> Conn" where
  "loopWrite_loop c [] = (Continue, c)"
| "loopWrite_loop c ((sel, werr) # ins) =
     (case loopWrite_iter c sel werr of
        (Continue, c') \<Rightarrow> loopWrite_loop c' ins
      | (Return, c') \<Rightarrow> (Return, c')
      | (Waiting, c') \<Rightarrow> (Waiting, c'))"

definition loopWrite :: "Conn \<Rightarrow> (write_case \<times> string option) list \<Rightarrow> flow \<times> Conn" where
  "loopWrite c ins =
     (case loopWrite_loop c ins of
        (Return, c') \<Rightarrow> (Return, close (cancel c'))
      | (fl, c') \<Rightarrow> (fl, c'))"

subsection \<open>The link registry\<close>

definition AddLink :: "Conn \<Rightarrow> string \<Rightarrow> Conn" where
  "AddLink c lid =
     (let c1 = logging (Info_add_link lid) c
      in if map_of (read c1) lid = None
         then c1\<lparr>read := AList.update lid (make_chan 10) (read c1)\<rparr>
         else c1)"

definition ChanRead :: "Conn \<Rightarrow> string \<Rightarrow> chan option" where
  "ChanRead c lid = map_of (read c) lid"

definition ChanUnknown :: "Conn \<Rightarrow> chan" where
  "ChanUnknown c = unknownRead c"

text \<open>
  \<^verbatim>\<open>Reset\<close>: \<^verbatim>\<open>ch := conn.read[id]; ch <- msg\<close>, a plain send. On an unregistered id the
  channel is nil and the send blocks forever; on a full channel it waits for a reader.
\<close>

definition Reset :: "Conn \<Rightarrow> string \<Rightarrow> Msg \<Rightarrow> Conn blocking" where
  "Reset c lid msg =
     (case chan_send (map_of (read c) lid) msg of
        Done ch' \<Rightarrow> Done (c\<lparr>read := AList.update lid ch' (read c)\<rparr>)
      | Blocked \<Rightarrow> Blocked
      | Blocked_forever \<Rightarrow> Blocked_forever)"

text \<open>The next item a reader of the link's channel gets: \<^verbatim>\<open><-conn.ChanRead(id)\<close>.\<close>

definition next_read :: "Conn \<Rightarrow> string \<Rightarrow> Msg blocking" where
  "next_read c lid =
     (case chan_recv (ChanRead c lid) of
        Done (m, ch') \<Rightarrow> Done m
      | Blocked \<Rightarrow> Blocked
      | Blocked_forever \<Rightarrow> Blocked_forever)"

subsection \<open>The sweep of the drop map\<close>

text \<open>
  One pass through the body of \<^verbatim>\<open>checkDrop\<close> after its sleep: the first loop collects the
  keys whose time has passed, the second deletes them. \<open>now\<close> is the value of
  \<^verbatim>\<open>time.Now()\<close> during the scan.
\<close>

definition checkDrop_scan :: "(string \<times> time) list \<Rightarrow> time \<Rightarrow> string list" where
  "checkDrop_scan d now = map fst (filter (\<lambda>(k, t). time_After now t) d)"

definition checkDrop_iter :: "Conn \<Rightarrow> time \<Rightarrow> Conn" where
  "checkDrop_iter c now =
     (let drops = checkDrop_scan (dropT c) now
      in c\<lparr>dropT := foldl (\<lambda>d id. AList.delete id d) (dropT c) drops\<rparr>)"

text \<open>
  The loop: each pass sleeps \<^verbatim>\<open>time.Second\<close>, plus however late the scheduler wakes it
  (a number of nanoseconds for each pass), then sweeps. The result is the state and the
  time of the last sweep.
\<close>

fun checkDrop_loop :: "Conn \<Rightarrow> time \<Rightarrow> nat list \<Rightarrow> Conn \<times> time" where
  "checkDrop_loop c now [] = (c, now)"
| "checkDrop_loop c now (late # ls) =
     checkDrop_loop (checkDrop_iter c (now + time_Second + int late))
       (now + time_Second + int late) ls"

subsection \<open>What the properties speak about\<close>

text \<open>An answer of the socket that is a read error, and one that is a timeout.\<close>

definition is_error :: "read_result \<times> select_case \<times> time \<Rightarrow> bool" where
  "is_error i = (case fst i of Read_error err \<Rightarrow> True | Read_ok m \<Rightarrow> False)"

definition is_timeout :: "read_result \<times> select_case \<times> time \<Rightarrow> bool" where
  "is_timeout i =
     (case fst i of
        Read_error err \<Rightarrow> strings_Contains err ''i/o timeout''
      | Read_ok m \<Rightarrow> False)"

text \<open>Every message waiting in a delivery channel, the unknown channel included.\<close>

definition chan_msgs :: "Conn \<Rightarrow> Msg list" where
  "chan_msgs c = concat (map (\<lambda>p. buf (snd p)) (read c)) @ buf (unknownRead c)"

text \<open>Whether a channel can take one more message.\<close>

definition has_room :: "chan \<Rightarrow> bool" where
  "has_room ch = (length (buf ch) < cap ch)"

subsection \<open>A small connection to run the code on\<close>

definition example_cfg :: Configure where
  "example_cfg =
     \<lparr>Server = ''relay.example:6154'', UseSSL = False, ID = ''client-1'',
      Enc = [1, 2, 3], ReadTimeout = 10 * time_Second, WriteTimeout = 7 * time_Second\<rparr>"

text \<open>The connection as \<^verbatim>\<open>New\<close> leaves it after a successful handshake.\<close>

definition example_conn :: Conn where
  "example_conn =
     \<lparr>cfg = example_cfg,
      conn = Some \<lparr>secure = False,
                   written = [(handshake_msg example_cfg, 5 * time_Second)],
                   closed = False\<rparr>,
      read = [], unknownRead = make_chan 1024, write_chan = make_chan 1024,
      dropT = [], ctx_done = False,
      logs = [Info_connected ''relay.example:6154'']\<rparr>"

text \<open>A data frame for a link, told apart by one payload byte; and a keepalive.\<close>

definition example_frame :: "string \<Rightarrow> byte \<Rightarrow> Msg" where
  "example_frame l b =
     \<lparr>XType = Msg_other 0, From = ''peer'', To = ''client-1'', LinkId = l,
      Payload = Payload_other [b]\<rparr>"

definition example_keepalive :: Msg where
  "example_keepalive =
     \<lparr>XType = Msg_keepalive, From = ''server'', To = ''client-1'', LinkId = [],
      Payload = Payload_nil\<rparr>"

text \<open>
  The same connection with link "a" registered and one frame waiting in its channel;
  with that link suppressed until one minute after time 0; with the channel of "a" full;
  and with two messages queued for writing.
\<close>

definition example_conn_a :: Conn where
  "example_conn_a =
     example_conn\<lparr>read := [(''a'', \<lparr>cap = 10, buf = [example_frame ''a'' 1]\<rparr>)]\<rparr>"

definition example_conn_suppressed :: Conn where
  "example_conn_suppressed = example_conn_a\<lparr>dropT := [(''a'', 60 * time_Second)]\<rparr>"

definition example_conn_full :: Conn where
  "example_conn_full =
     example_conn\<lparr>read := [(''a'', \<lparr>cap = 10, buf = replicate 10 (example_frame ''a'' 1)\<rparr>)]\<rparr>"

definition example_conn_queued :: Conn where
  "example_conn_queued =
     example_conn\<lparr>write_chan :=
       \<lparr>cap = 1024,
        buf = [example_frame ''a'' 1, (example_frame ''b'' 2)\<lparr>From := ''forged''\<rparr>]\<rparr>\<rparr>"

section \<open>Properties\<close>

subsection \<open>The timeout counter of the read loop\<close>

lemma loopRead_loop_timeouts:
  "list_all is_timeout ins \<Longrightarrow> timeout + length ins < 60 \<Longrightarrow>
   loopRead_loop timeout c ins = (Continue, timeout + length ins, c)"
proof (induction ins arbitrary: timeout)
  case Nil
  then show ?case by simp
next
  case (Cons i ins)
  obtain r sel now where i: "i = (r, sel, now)" by (cases i)
  from Cons.prems i obtain err where r: "r = Read_error err"
    and tm: "strings_Contains err ''i/o timeout''"
    by (cases r) (auto simp: is_timeout_def)
  from Cons.prems have "list_all is_timeout ins" and "Suc timeout + length ins < 60"
    by simp_all
  from Cons.IH[OF this] Cons.prems(2) tm show ?case
    by (simp add: i r)
qed

lemma loopRead_loop_fatal:
  "list_all is_timeout ins \<Longrightarrow> timeout < 60 \<Longrightarrow> 60 \<le> timeout + length ins \<Longrightarrow>
   loopRead_loop timeout c ins = (Return, 60, logging Error_too_many_timeout c)"
proof (induction ins arbitrary: timeout)
  case Nil
  then show ?case by simp
next
  case (Cons i ins)
  obtain r sel now where i: "i = (r, sel, now)" by (cases i)
  from Cons.prems i obtain err where r: "r = Read_error err"
    and tm: "strings_Contains err ''i/o timeout''"
    by (cases r) (auto simp: is_timeout_def)
  show ?case
  proof (cases "timeout = 59")
    case True
    with tm show ?thesis by (simp add: i r)
  next
    case False
    with Cons.prems have "list_all is_timeout ins" and "Suc timeout < 60"
      and "60 \<le> Suc timeout + length ins"
      by simp_all
    from Cons.IH[OF this] tm False Cons.prems(2) show ?thesis
      by (simp add: i r)
  qed
qed

lemma loopRead_loop_errors:
  "list_all is_error ins \<Longrightarrow> timeout < 60 \<Longrightarrow>
   fst (loopRead_loop timeout c ins) =
     (if 60 \<le> timeout + length (filter is_timeout ins) then Return else Continue)
   \<and> (timeout + length (filter is_timeout ins) < 60 \<longrightarrow>
        fst (snd (loopRead_loop timeout c ins)) = timeout + length (filter is_timeout ins))"
proof (induction ins arbitrary: timeout c)
  case Nil
  then show ?case by simp
next
  case (Cons i ins)
  obtain r sel now where i: "i = (r, sel, now)" by (cases i)
  from Cons.prems i obtain err where r: "r = Read_error err"
    by (cases r) (auto simp: is_error_def)
  from Cons.prems have rest: "list_all is_error ins" by simp
  show ?case
  proof (cases "strings_Contains err ''i/o timeout''")
    case True
    note tm = this
    show ?thesis
    proof (cases "timeout = 59")
      case True
      with tm show ?thesis by (simp add: i r is_timeout_def)
    next
      case False
      with Cons.prems have lt: "Suc timeout < 60" by simp
      from Cons.IH[OF rest lt, of c] tm False show ?thesis
        by (simp add: i r is_timeout_def)
    qed
  next
    case False
    from Cons.IH[OF rest Cons.prems(2), of "logging (Error_read_message err) c"] False
    show ?thesis
      by (simp add: i r is_timeout_def)
  qed
qed

text \<open>
  C3. In the read loop, a read that fails with a timeout (an error whose text contains
  "i/o timeout") adds one to the counter, and the loop returns when the counter reaches
  60; a successful read sets the counter to zero; any other read error is logged and the
  loop goes on. In a run: fewer than 60 timeouts in a row leave the loop running, and
  the 60th ends it, after which the deferred calls cancel the context and close the
  socket.
\<close>

theorem loopRead_timeout_counter:
  "(strings_Contains err1 ''i/o timeout'' \<longrightarrow>
      loopRead_iter timeout c (Read_error err1) sel now =
        (if 60 \<le> timeout + 1
         then (Return, timeout + 1, logging Error_too_many_timeout c)
         else (Continue, timeout + 1, c)))
   \<and> fst (snd (loopRead_iter timeout c (Read_ok msg) sel now)) = 0
   \<and> (\<not> strings_Contains err2 ''i/o timeout'' \<longrightarrow>
      loopRead_iter timeout c (Read_error err2) sel now =
        (Continue, timeout, logging (Error_read_message err2) c))
   \<and> (list_all is_timeout ins1 \<and> length ins1 < 60 \<longrightarrow>
      loopRead c ins1 = (Continue, c))
   \<and> (list_all is_timeout ins2 \<and> length ins2 = 60 \<longrightarrow>
      loopRead c ins2 = (Return, close (cancel (logging Error_too_many_timeout c))))"
proof -
  have reset: "fst (snd (loopRead_iter timeout c (Read_ok msg) sel now)) = 0"
    by (simp add: Let_def split: select_case.split blocking.split)
  have short: "list_all is_timeout ins1 \<and> length ins1 < 60 \<longrightarrow> loopRead c ins1 = (Continue, c)"
    using loopRead_loop_timeouts[of ins1 0 c] by (simp add: loopRead_def)
  have fatal: "list_all is_timeout ins2 \<and> length ins2 = 60 \<longrightarrow>
      loopRead c ins2 = (Return, close (cancel (logging Error_too_many_timeout c)))"
    using loopRead_loop_fatal[of ins2 0 c] by (simp add: loopRead_def)
  from reset short fatal show ?thesis by simp
qed

theorem loopRead_timeout_counter_witness:
  "loopRead_iter 58 example_conn (Read_error ''read tcp: i/o timeout'') Case_send 0 =
     (Continue, 59, example_conn)
   \<and> loopRead_iter 59 example_conn (Read_error ''read tcp: i/o timeout'') Case_send 0 =
     (Return, 60, logging Error_too_many_timeout example_conn)
   \<and> fst (snd (loopRead_iter 59 example_conn (Read_ok (example_frame ''a'' 1)) Case_send 0)) = 0
   \<and> loopRead_iter 59 example_conn (Read_error ''EOF'') Case_send 0 =
     (Continue, 59, logging (Error_read_message ''EOF'') example_conn)
   \<and> loopRead example_conn (replicate 59 (Read_error ''i/o timeout'', Case_send, 0)) =
     (Continue, example_conn)
   \<and> loopRead example_conn (replicate 60 (Read_error ''i/o timeout'', Case_send, 0)) =
     (Return, close (cancel (logging Error_too_many_timeout example_conn)))"
proof -
  have tm: "strings_Contains ''read tcp: i/o timeout'' ''i/o timeout''" by simp
  have other: "\<not> strings_Contains ''EOF'' ''i/o timeout''" by simp
  have all: "\<And>n. list_all is_timeout (replicate n (Read_error ''i/o timeout'', Case_send, 0))"
    by (simp add: list_all_iff is_timeout_def)
  from loopRead_timeout_counter
         [of "''read tcp: i/o timeout''" 58 example_conn Case_send 0 "example_frame ''a'' 1"
             "''EOF''" "replicate 59 (Read_error ''i/o timeout'', Case_send, 0)"
             "replicate 60 (Read_error ''i/o timeout'', Case_send, 0)"]
       loopRead_timeout_counter
         [of "''read tcp: i/o timeout''" 59 example_conn Case_send 0 "example_frame ''a'' 1"
             "''EOF''" "replicate 59 (Read_error ''i/o timeout'', Case_send, 0)"
             "replicate 60 (Read_error ''i/o timeout'', Case_send, 0)"]
       tm other all
  show ?thesis by simp
qed

text \<open>
  C10. A read error that is not a timeout leaves the counter as it was. So in a run of
  read errors of both kinds, with no successful read, the counter is the number of
  timeouts seen so far, whatever other errors came between them, and the loop returns
  exactly when that number reaches 60.
\<close>

theorem loopRead_timeouts_need_not_be_consecutive:
  assumes "list_all is_error ins" and "timeout < 60"
  shows "(\<not> strings_Contains err ''i/o timeout'' \<longrightarrow>
            fst (snd (loopRead_iter timeout c (Read_error err) sel now)) = timeout)
         \<and> fst (loopRead_loop timeout c ins) =
             (if 60 \<le> timeout + length (filter is_timeout ins) then Return else Continue)
         \<and> (timeout + length (filter is_timeout ins) < 60 \<longrightarrow>
              fst (snd (loopRead_loop timeout c ins)) =
                timeout + length (filter is_timeout ins))"
  using loopRead_loop_errors[OF assms, of c] by simp

theorem loopRead_timeouts_need_not_be_consecutive_witness:
  "fst (snd (loopRead_iter 0 example_conn (Read_error ''EOF'') Case_send 0)) = 0
   \<and> fst (loopRead_loop 0 example_conn
        (concat (replicate 60
           [(Read_error ''EOF'', Case_send, 0), (Read_error ''i/o timeout'', Case_send, 0)])))
      = Return"
proof -
  let ?ins = "concat (replicate 60
           [(Read_error ''EOF'', Case_send, 0::time), (Read_error ''i/o timeout'', Case_send, 0)])"
  have errs: "list_all is_error ?ins" by (simp add: list_all_iff is_error_def)
  have count: "length (filter is_timeout ?ins) = 60" by code_simp
  have other: "\<not> strings_Contains ''EOF'' ''i/o timeout''" by simp
  from loopRead_timeouts_need_not_be_consecutive
         [OF errs, of 0 "''EOF''" example_conn Case_send 0] count other
  show ?thesis by simp
qed

subsection \<open>Keepalive frames\<close>

lemma set_update_subset: "set (AList.update k v al) \<subseteq> insert (k, v) (set al)"
  by (induction al) auto

lemma chan_msgs_logging [simp]: "chan_msgs (logging e c) = chan_msgs c"
  by (simp add: chan_msgs_def logging_def)

lemma chan_msgs_dropT [simp]: "chan_msgs (c\<lparr>dropT := d\<rparr>) = chan_msgs c"
  by (simp add: chan_msgs_def)

lemma chan_msgs_link:
  assumes "map_of (read c) l = Some ch"
    and "m \<in> set (chan_msgs (c\<lparr>read := AList.update l (ch\<lparr>buf := buf ch @ [msg]\<rparr>) (read c)\<rparr>))"
  shows "m \<in> set (chan_msgs c) \<or> m = msg"
proof -
  from assms(1) have mem: "(l, ch) \<in> set (read c)" by (rule map_of_SomeD)
  from assms(2) consider
      (link) p where "p \<in> set (AList.update l (ch\<lparr>buf := buf ch @ [msg]\<rparr>) (read c))" "m \<in> set (buf (snd p))"
    | (unknown) "m \<in> set (buf (unknownRead c))"
    by (auto simp: chan_msgs_def)
  then show ?thesis
  proof cases
    case link
    with set_update_subset[of l "ch\<lparr>buf := buf ch @ [msg]\<rparr>" "read c"]
    have "p = (l, ch\<lparr>buf := buf ch @ [msg]\<rparr>) \<or> p \<in> set (read c)" by auto
    then show ?thesis
    proof
      assume "p = (l, ch\<lparr>buf := buf ch @ [msg]\<rparr>)"
      with link(2) have "m \<in> set (buf ch) \<or> m = msg" by auto
      with mem show ?thesis by (force simp: chan_msgs_def)
    next
      assume "p \<in> set (read c)"
      with link(2) show ?thesis by (force simp: chan_msgs_def)
    qed
  next
    case unknown
    then show ?thesis by (simp add: chan_msgs_def)
  qed
qed

lemma chan_msgs_unknown:
  "m \<in> set (chan_msgs (c\<lparr>unknownRead := (unknownRead c)\<lparr>buf := buf (unknownRead c) @ [msg]\<rparr>\<rparr>))
   \<Longrightarrow> m \<in> set (chan_msgs c) \<or> m = msg"
  by (auto simp: chan_msgs_def)

lemma loopRead_iter_msgs:
  assumes "m \<in> set (chan_msgs (snd (snd (loopRead_iter timeout c r sel now))))"
  shows "m \<in> set (chan_msgs c) \<or> (XType m \<noteq> Msg_keepalive \<and> r = Read_ok m)"
proof (cases r)
  case (Read_error err)
  with assms show ?thesis by (simp split: if_splits)
next
  case (Read_ok msg)
  show ?thesis
  proof (cases "XType msg = Msg_keepalive \<or> map_of (dropT c) (LinkId msg) \<noteq> None")
    case True
    with assms Read_ok show ?thesis by (auto simp: Let_def logging_def chan_msgs_def split: if_splits)
  next
    case False
    note live = this
    let ?c1 = "logging (Debug_read_message (XType msg) (LinkId msg) (From msg)) c"
    have rd: "read ?c1 = read c" and un: "unknownRead ?c1 = unknownRead c" and dr: "dropT ?c1 = dropT c"
      by (simp_all add: logging_def)
    show ?thesis
    proof (cases sel)
      case Case_send
      show ?thesis
      proof (cases "map_of (read c) (LinkId msg)")
        case None
        with assms Read_ok live Case_send rd un dr
        have "m \<in> set (chan_msgs ?c1) \<or> m \<in> set (chan_msgs (?c1\<lparr>unknownRead := (unknownRead ?c1)\<lparr>buf := buf (unknownRead ?c1) @ [msg]\<rparr>\<rparr>))"
          by (auto simp: Let_def route_def split: if_splits)
        with chan_msgs_unknown[of m ?c1 msg] live show ?thesis using Read_ok by auto
      next
        case (Some ch)
        with assms Read_ok live Case_send rd un dr
        have "m \<in> set (chan_msgs ?c1) \<or> m \<in> set (chan_msgs (?c1\<lparr>read := AList.update (LinkId msg) (ch\<lparr>buf := buf ch @ [msg]\<rparr>) (read ?c1)\<rparr>))"
          by (auto simp: Let_def route_def split: if_splits)
        moreover have "map_of (read ?c1) (LinkId msg) = Some ch" using Some rd by simp
        ultimately show ?thesis using chan_msgs_link[of ?c1 "LinkId msg" ch m msg] live Read_ok by auto
      qed
    next
      case Case_after
      with assms Read_ok live dr show ?thesis by (auto simp: Let_def)
    next
      case Case_done
      with assms Read_ok live dr show ?thesis by (auto simp: Let_def split: if_splits)
    qed
  qed
qed

lemma loopRead_loop_msgs:
  "m \<in> set (chan_msgs (snd (snd (loopRead_loop timeout c ins)))) \<Longrightarrow>
   m \<in> set (chan_msgs c) \<or> (XType m \<noteq> Msg_keepalive \<and> Read_ok m \<in> fst ` set ins)"
proof (induction ins arbitrary: timeout c)
  case Nil
  then show ?case by simp
next
  case (Cons i ins)
  obtain r sel now where i: "i = (r, sel, now)" by (cases i)
  obtain fl t' c' where it: "loopRead_iter timeout c r sel now = (fl, t', c')"
    by (cases "loopRead_iter timeout c r sel now")
  have step: "\<And>x. x \<in> set (chan_msgs c') \<Longrightarrow> x \<in> set (chan_msgs c) \<or> (XType x \<noteq> Msg_keepalive \<and> r = Read_ok x)"
    using loopRead_iter_msgs[of _ timeout c r sel now] it by simp
  show ?case
  proof (cases fl)
    case Continue
    with Cons.prems i it have "m \<in> set (chan_msgs (snd (snd (loopRead_loop t' c' ins))))" by simp
    from Cons.IH[OF this] step[of m] i show ?thesis by auto
  next
    case Return
    with Cons.prems i it have "m \<in> set (chan_msgs c')" by simp
    with step[of m] i show ?thesis by auto
  next
    case Waiting
    with Cons.prems i it have "m \<in> set (chan_msgs c')" by simp
    with step[of m] i show ?thesis by auto
  qed
qed

text \<open>
  C4. A keepalive frame read by the loop is dropped before anything else is done with
  it: the pass leaves every field of the connection as it was. Over any run of the loop,
  whatever the socket and the \<^verbatim>\<open>select\<close> answer, a keepalive frame found in a delivery
  channel afterwards (per-link or unknown) was already there before the run.
\<close>

theorem loopRead_discards_keepalive:
  "(XType msg = Msg_keepalive \<longrightarrow>
      loopRead_iter timeout c (Read_ok msg) sel now = (Continue, 0, c))
   \<and> (\<forall>m \<in> set (chan_msgs (snd (snd (loopRead_loop timeout c ins)))).
        XType m = Msg_keepalive \<longrightarrow> m \<in> set (chan_msgs c))"
proof -
  have "\<And>m. m \<in> set (chan_msgs (snd (snd (loopRead_loop timeout c ins)))) \<Longrightarrow>
          XType m = Msg_keepalive \<Longrightarrow> m \<in> set (chan_msgs c)"
    using loopRead_loop_msgs[of _ timeout c ins] by blast
  then show ?thesis by simp
qed

theorem loopRead_discards_keepalive_witness:
  "loopRead_iter 0 (AddLink example_conn ''a'') (Read_ok example_keepalive) Case_send 0 =
     (Continue, 0, AddLink example_conn ''a'')
   \<and> chan_msgs (snd (snd (loopRead_loop 0 (AddLink example_conn ''a'')
        [(Read_ok example_keepalive, Case_send, 0),
         (Read_ok (example_frame ''a'' 1), Case_send, 0),
         (Read_ok (example_keepalive\<lparr>LinkId := ''a''\<rparr>), Case_send, 0),
         (Read_ok (example_frame ''b'' 2), Case_send, 0)]))) =
       [example_frame ''a'' 1, example_frame ''b'' 2]
   \<and> example_keepalive\<lparr>LinkId := ''a''\<rparr> \<notin>
       set (chan_msgs (snd (snd (loopRead_loop 0 (AddLink example_conn ''a'')
        [(Read_ok example_keepalive, Case_send, 0),
         (Read_ok (example_frame ''a'' 1), Case_send, 0),
         (Read_ok (example_keepalive\<lparr>LinkId := ''a''\<rparr>), Case_send, 0),
         (Read_ok (example_frame ''b'' 2), Case_send, 0)]))))"
proof -
  let ?c = "AddLink example_conn ''a''"
  let ?ins = "[(Read_ok example_keepalive, Case_send, 0::time),
         (Read_ok (example_frame ''a'' 1), Case_send, 0),
         (Read_ok (example_keepalive\<lparr>LinkId := ''a''\<rparr>), Case_send, 0),
         (Read_ok (example_frame ''b'' 2), Case_send, 0)]"
  let ?after = "chan_msgs (snd (snd (loopRead_loop 0 ?c ?ins)))"
  have ka: "XType example_keepalive = Msg_keepalive" by (simp add: example_keepalive_def)
  have empty: "chan_msgs ?c = []"
    by (simp add: chan_msgs_def AddLink_def example_conn_def logging_def make_chan_def)
  have run: "?after = [example_frame ''a'' 1, example_frame ''b'' 2]"
    by (simp add: chan_msgs_def AddLink_def example_conn_def logging_def make_chan_def
          example_keepalive_def example_frame_def route_def Let_def)
  note main = loopRead_discards_keepalive [of example_keepalive 0 ?c Case_send 0 ?ins]
  from main ka have step: "loopRead_iter 0 ?c (Read_ok example_keepalive) Case_send 0 =
      (Continue, 0, ?c)"
    by (elim conjE impE)
  from main have inv: "\<forall>m \<in> set ?after. XType m = Msg_keepalive \<longrightarrow> m \<in> set (chan_msgs ?c)"
    by (rule conjunct2)
  have none: "example_keepalive\<lparr>LinkId := ''a''\<rparr> \<notin> set ?after"
  proof
    assume "example_keepalive\<lparr>LinkId := ''a''\<rparr> \<in> set ?after"
    with inv have "XType (example_keepalive\<lparr>LinkId := ''a''\<rparr>) = Msg_keepalive \<longrightarrow>
        example_keepalive\<lparr>LinkId := ''a''\<rparr> \<in> set (chan_msgs ?c)"
      by (rule bspec)
    with ka show False unfolding empty by simp
  qed
  from step run none show ?thesis by (intro conjI)
qed

subsection \<open>Routing a frame to its channel\<close>

lemma loopRead_iter_send:
  assumes "XType msg \<noteq> Msg_keepalive" and "map_of (dropT c) (LinkId msg) = None"
  shows "loopRead_iter timeout c (Read_ok msg) Case_send now =
     (case map_of (read c) (LinkId msg) of
        Some ch \<Rightarrow>
          if has_room ch
          then (Continue, 0,
                (logging (Debug_read_message (XType msg) (LinkId msg) (From msg)) c)
                  \<lparr>read := AList.update (LinkId msg) (ch\<lparr>buf := buf ch @ [msg]\<rparr>) (read c)\<rparr>)
          else (Waiting, 0, logging (Debug_read_message (XType msg) (LinkId msg) (From msg)) c)
      | None \<Rightarrow>
          if has_room (unknownRead c)
          then (Continue, 0,
                (logging (Debug_read_message (XType msg) (LinkId msg) (From msg)) c)
                  \<lparr>unknownRead := (unknownRead c)\<lparr>buf := buf (unknownRead c) @ [msg]\<rparr>\<rparr>)
          else (Waiting, 0, logging (Debug_read_message (XType msg) (LinkId msg) (From msg)) c))"
  using assms
  by (simp add: Let_def logging_def route_def has_room_def split: option.split)

lemma loopRead_iter_suppressed:
  "map_of (dropT c) (LinkId msg) = Some expiry \<Longrightarrow>
   loopRead_iter timeout c (Read_ok msg) sel now =
     (Continue, 0,
      if XType msg = Msg_keepalive then c
      else logging (Debug_read_message (XType msg) (LinkId msg) (From msg)) c)"
  by (simp add: Let_def logging_def)

lemma loopRead_iter_other_links:
  "l \<noteq> LinkId msg \<Longrightarrow>
   ChanRead (snd (snd (loopRead_iter timeout c (Read_ok msg) sel now))) l = ChanRead c l"
  by (cases "map_of (read c) (LinkId msg)")
     (simp_all add: Let_def ChanRead_def logging_def route_def update_conv'
        split: select_case.split)

lemma loopRead_iter_unknown_kept:
  "map_of (read c) (LinkId msg) \<noteq> None \<Longrightarrow>
   ChanUnknown (snd (snd (loopRead_iter timeout c (Read_ok msg) sel now))) = ChanUnknown c"
  by (cases "map_of (read c) (LinkId msg)")
     (simp_all add: Let_def ChanUnknown_def logging_def route_def
        split: select_case.split)

lemma loopRead_iter_not_lost:
  assumes "XType msg \<noteq> Msg_keepalive" and "map_of (dropT c) (LinkId msg) = None"
    and "\<not> ctx_done c" and "sel \<noteq> Case_after"
  shows "fst (loopRead_iter timeout c (Read_ok msg) sel now) = Waiting
     \<or> (fst (loopRead_iter timeout c (Read_ok msg) sel now) = Continue
        \<and> map_option buf
             (get_chan (snd (snd (loopRead_iter timeout c (Read_ok msg) sel now)))
                (route c (LinkId msg))) =
           map_option (\<lambda>ch. buf ch @ [msg]) (get_chan c (route c (LinkId msg))))"
proof (cases sel)
  case Case_send
  show ?thesis
  proof (cases "map_of (read c) (LinkId msg)")
    case None
    with assms Case_send show ?thesis
      by (simp add: Let_def logging_def route_def)
  next
    case (Some ch)
    with assms Case_send show ?thesis
      by (simp add: Let_def logging_def route_def update_conv')
  qed
next
  case Case_after
  with assms show ?thesis by simp
next
  case Case_done
  with assms show ?thesis by (simp add: Let_def logging_def)
qed

lemma loopRead_iter_overflow_logged:
  assumes "XType msg \<noteq> Msg_keepalive" and "map_of (dropT c) (LinkId msg) = None"
  shows "last (logs (snd (snd (loopRead_iter timeout c (Read_ok msg) Case_after now)))) =
      Error_drop_message (XType msg)"
  using assms by (simp add: Let_def logging_def)

text \<open>
  C1. A frame read by the loop that is not a keepalive and whose link ID has no entry in
  the drop map is offered to the channel registered for its link ID if there is one, and
  to the unknown channel otherwise. When the send case of the \<^verbatim>\<open>select\<close> fires on a
  channel with room, the frame is appended to that channel: a frame for an unregistered
  link ends up in the unknown channel. Whatever case fires, the channels of the other
  links are left as they were, and so is the unknown channel when the link is registered.
  While the context is not cancelled, unless the timeout case fires the pass has either
  appended the frame to that channel or is still offering it (the channel is full); and
  when the timeout case fires, the last line logged is the error for the dropped frame.
\<close>

theorem loopRead_routes_frame:
  assumes "XType msg \<noteq> Msg_keepalive" and "map_of (dropT c) (LinkId msg) = None"
  shows "(map_of (read c) (LinkId msg) = Some ch \<and> has_room ch \<longrightarrow>
            loopRead_iter timeout c (Read_ok msg) Case_send now =
              (Continue, 0,
               (logging (Debug_read_message (XType msg) (LinkId msg) (From msg)) c)
                 \<lparr>read := AList.update (LinkId msg) (ch\<lparr>buf := buf ch @ [msg]\<rparr>) (read c)\<rparr>)
            \<and> ChanRead (snd (snd (loopRead_iter timeout c (Read_ok msg) Case_send now)))
                 (LinkId msg) = Some (ch\<lparr>buf := buf ch @ [msg]\<rparr>))
         \<and> (map_of (read c) (LinkId msg) = None \<and> has_room (unknownRead c) \<longrightarrow>
            loopRead_iter timeout c (Read_ok msg) Case_send now =
              (Continue, 0,
               (logging (Debug_read_message (XType msg) (LinkId msg) (From msg)) c)
                 \<lparr>unknownRead := (unknownRead c)\<lparr>buf := buf (unknownRead c) @ [msg]\<rparr>\<rparr>))
         \<and> (\<forall>l. l \<noteq> LinkId msg \<longrightarrow>
              ChanRead (snd (snd (loopRead_iter timeout c (Read_ok msg) sel now))) l =
                ChanRead c l)
         \<and> (map_of (read c) (LinkId msg) \<noteq> None \<longrightarrow>
              ChanUnknown (snd (snd (loopRead_iter timeout c (Read_ok msg) sel now))) =
                ChanUnknown c)
         \<and> (\<not> ctx_done c \<and> sel \<noteq> Case_after \<longrightarrow>
              fst (loopRead_iter timeout c (Read_ok msg) sel now) = Waiting
              \<or> (fst (loopRead_iter timeout c (Read_ok msg) sel now) = Continue
                 \<and> map_option buf
                      (get_chan (snd (snd (loopRead_iter timeout c (Read_ok msg) sel now)))
                         (route c (LinkId msg))) =
                    map_option (\<lambda>ch. buf ch @ [msg]) (get_chan c (route c (LinkId msg)))))
         \<and> last (logs (snd (snd (loopRead_iter timeout c (Read_ok msg) Case_after now)))) =
             Error_drop_message (XType msg)"
proof -
  have reg: "map_of (read c) (LinkId msg) = Some ch \<and> has_room ch \<longrightarrow>
            loopRead_iter timeout c (Read_ok msg) Case_send now =
              (Continue, 0,
               (logging (Debug_read_message (XType msg) (LinkId msg) (From msg)) c)
                 \<lparr>read := AList.update (LinkId msg) (ch\<lparr>buf := buf ch @ [msg]\<rparr>) (read c)\<rparr>)
            \<and> ChanRead (snd (snd (loopRead_iter timeout c (Read_ok msg) Case_send now)))
                 (LinkId msg) = Some (ch\<lparr>buf := buf ch @ [msg]\<rparr>)"
    using assms
    by (simp add: Let_def logging_def route_def has_room_def ChanRead_def update_conv')
  have unreg: "map_of (read c) (LinkId msg) = None \<and> has_room (unknownRead c) \<longrightarrow>
            loopRead_iter timeout c (Read_ok msg) Case_send now =
              (Continue, 0,
               (logging (Debug_read_message (XType msg) (LinkId msg) (From msg)) c)
                 \<lparr>unknownRead := (unknownRead c)\<lparr>buf := buf (unknownRead c) @ [msg]\<rparr>\<rparr>)"
    using assms
    by (simp add: Let_def logging_def route_def has_room_def)
  have others: "\<forall>l. l \<noteq> LinkId msg \<longrightarrow>
      ChanRead (snd (snd (loopRead_iter timeout c (Read_ok msg) sel now))) l = ChanRead c l"
    using loopRead_iter_other_links[of _ msg timeout c sel now] by blast
  have unknown: "map_of (read c) (LinkId msg) \<noteq> None \<longrightarrow>
      ChanUnknown (snd (snd (loopRead_iter timeout c (Read_ok msg) sel now))) = ChanUnknown c"
    using loopRead_iter_unknown_kept[of c msg timeout sel now] by blast
  have kept: "\<not> ctx_done c \<and> sel \<noteq> Case_after \<longrightarrow>
              fst (loopRead_iter timeout c (Read_ok msg) sel now) = Waiting
              \<or> (fst (loopRead_iter timeout c (Read_ok msg) sel now) = Continue
                 \<and> map_option buf
                      (get_chan (snd (snd (loopRead_iter timeout c (Read_ok msg) sel now)))
                         (route c (LinkId msg))) =
                    map_option (\<lambda>ch. buf ch @ [msg]) (get_chan c (route c (LinkId msg))))"
    using loopRead_iter_not_lost[OF assms, of sel timeout now] by blast
  from reg unreg others unknown kept loopRead_iter_overflow_logged[OF assms, of timeout now]
  show ?thesis by (intro conjI)
qed

theorem loopRead_routes_frame_witness:
  "loopRead_iter 7 example_conn_a (Read_ok (example_frame ''a'' 2)) Case_send 0 =
     (Continue, 0,
      (logging (Debug_read_message (Msg_other 0) ''a'' ''peer'') example_conn_a)
        \<lparr>read := [(''a'', \<lparr>cap = 10, buf = [example_frame ''a'' 1, example_frame ''a'' 2]\<rparr>)]\<rparr>)
   \<and> loopRead_iter 7 example_conn_a (Read_ok (example_frame ''b'' 3)) Case_send 0 =
     (Continue, 0,
      (logging (Debug_read_message (Msg_other 0) ''b'' ''peer'') example_conn_a)
        \<lparr>unknownRead := \<lparr>cap = 1024, buf = [example_frame ''b'' 3]\<rparr>\<rparr>)
   \<and> ChanRead (snd (snd (loopRead_iter 7 example_conn_a (Read_ok (example_frame ''b'' 3))
        Case_after 0))) ''a'' = Some \<lparr>cap = 10, buf = [example_frame ''a'' 1]\<rparr>
   \<and> ChanUnknown (snd (snd (loopRead_iter 7 example_conn_a (Read_ok (example_frame ''a'' 2))
        Case_send 0))) = \<lparr>cap = 1024, buf = []\<rparr>"
proof -
  let ?ch = "\<lparr>cap = 10, buf = [example_frame ''a'' 1]\<rparr>"
  have ta: "XType (example_frame ''a'' 2) \<noteq> Msg_keepalive"
    and tb: "XType (example_frame ''b'' 3) \<noteq> Msg_keepalive"
    by (simp_all add: example_frame_def)
  have da: "map_of (dropT example_conn_a) (LinkId (example_frame ''a'' 2)) = None"
    and db: "map_of (dropT example_conn_a) (LinkId (example_frame ''b'' 3)) = None"
    by (simp_all add: example_conn_a_def example_conn_def)
  have fa: "XType (example_frame ''a'' 2) = Msg_other 0 \<and> LinkId (example_frame ''a'' 2) = ''a''
      \<and> From (example_frame ''a'' 2) = ''peer''"
    and fb: "XType (example_frame ''b'' 3) = Msg_other 0 \<and> LinkId (example_frame ''b'' 3) = ''b''
      \<and> From (example_frame ''b'' 3) = ''peer''"
    by (simp_all add: example_frame_def)
  have reg: "map_of (read example_conn_a) ''a'' = Some ?ch \<and> has_room ?ch"
    by (simp add: example_conn_a_def has_room_def)
  have unreg: "map_of (read example_conn_a) ''b'' = None
      \<and> has_room \<lparr>cap = 1024, buf = []\<rparr>"
    by (simp add: example_conn_a_def has_room_def)
  have upd: "AList.update ''a'' \<lparr>cap = 10, buf = [example_frame ''a'' 1, example_frame ''a'' 2]\<rparr>
               (read example_conn_a) =
             [(''a'', \<lparr>cap = 10, buf = [example_frame ''a'' 1, example_frame ''a'' 2]\<rparr>)]"
    by (simp add: example_conn_a_def)
  have unk: "unknownRead example_conn_a = \<lparr>cap = 1024, buf = []\<rparr>"
    by (simp add: example_conn_a_def example_conn_def make_chan_def)
  have before: "ChanRead example_conn_a ''a'' = Some ?ch
      \<and> ChanUnknown example_conn_a = \<lparr>cap = 1024, buf = []\<rparr>"
    by (simp add: ChanRead_def ChanUnknown_def example_conn_a_def example_conn_def make_chan_def)
  have ne: "''a'' \<noteq> LinkId (example_frame ''b'' 3)" by (simp add: example_frame_def)
  note main_a = loopRead_routes_frame [OF ta da, of ?ch 7 0 Case_send]
  note main_b = loopRead_routes_frame [OF tb db, of ?ch 7 0 Case_after]
  from main_a reg fa have w1:
    "loopRead_iter 7 example_conn_a (Read_ok (example_frame ''a'' 2)) Case_send 0 =
     (Continue, 0,
      (logging (Debug_read_message (Msg_other 0) ''a'' ''peer'') example_conn_a)
        \<lparr>read := [(''a'', \<lparr>cap = 10, buf = [example_frame ''a'' 1, example_frame ''a'' 2]\<rparr>)]\<rparr>)"
    by (simp del: loopRead_iter.simps add: upd)
  from main_b unreg fb have w2:
    "loopRead_iter 7 example_conn_a (Read_ok (example_frame ''b'' 3)) Case_send 0 =
     (Continue, 0,
      (logging (Debug_read_message (Msg_other 0) ''b'' ''peer'') example_conn_a)
        \<lparr>unknownRead := \<lparr>cap = 1024, buf = [example_frame ''b'' 3]\<rparr>\<rparr>)"
    by (simp del: loopRead_iter.simps add: unk)
  from main_b ne before have w3:
    "ChanRead (snd (snd (loopRead_iter 7 example_conn_a (Read_ok (example_frame ''b'' 3))
        Case_after 0))) ''a'' = Some \<lparr>cap = 10, buf = [example_frame ''a'' 1]\<rparr>"
    by metis
  from main_a reg fa before have w4:
    "ChanUnknown (snd (snd (loopRead_iter 7 example_conn_a (Read_ok (example_frame ''a'' 2))
        Case_send 0))) = \<lparr>cap = 1024, buf = []\<rparr>"
    by (metis option.distinct(1))
  from w1 w2 w3 w4 show ?thesis by (intro conjI)
qed

subsection \<open>The drop policy\<close>

text \<open>
  C2. A frame whose link ID has an entry in the drop map is discarded, whatever case the
  \<^verbatim>\<open>select\<close> would have fired: the pass changes nothing but the debug log. When the
  timeout case of the \<^verbatim>\<open>select\<close> fires (the send did not complete within the read
  timeout), the link ID is recorded in the drop map with the time now plus one minute
  (60 * 10^9 nanoseconds), an error is logged, and the frame is in no channel.
\<close>

theorem loopRead_drop_policy:
  "(map_of (dropT c) (LinkId m1) = Some expiry \<longrightarrow>
      loopRead_iter timeout c (Read_ok m1) sel now =
        (Continue, 0,
         if XType m1 = Msg_keepalive then c
         else logging (Debug_read_message (XType m1) (LinkId m1) (From m1)) c))
   \<and> (XType m2 \<noteq> Msg_keepalive \<and> map_of (dropT c) (LinkId m2) = None \<longrightarrow>
      loopRead_iter timeout c (Read_ok m2) Case_after now =
        (Continue, 0,
         (logging (Error_drop_message (XType m2))
            (logging (Debug_read_message (XType m2) (LinkId m2) (From m2)) c))
           \<lparr>dropT := AList.update (LinkId m2) (now + 60 * 1000000000) (dropT c)\<rparr>)
      \<and> map_of (dropT (snd (snd (loopRead_iter timeout c (Read_ok m2) Case_after now)))) =
          (map_of (dropT c))(LinkId m2 \<mapsto> now + 60 * 1000000000)
      \<and> read (snd (snd (loopRead_iter timeout c (Read_ok m2) Case_after now))) = read c
      \<and> unknownRead (snd (snd (loopRead_iter timeout c (Read_ok m2) Case_after now))) =
          unknownRead c)"
  by (simp add: Let_def logging_def time_Add_def time_Minute_def time_Second_def update_conv')

theorem loopRead_drop_policy_witness:
  "loopRead_iter 0 example_conn_suppressed (Read_ok (example_frame ''a'' 2)) Case_send 5 =
     (Continue, 0,
      logging (Debug_read_message (Msg_other 0) ''a'' ''peer'') example_conn_suppressed)
   \<and> loopRead_iter 0 example_conn_full (Read_ok (example_frame ''a'' 2)) Case_after 5 =
     (Continue, 0,
      (logging (Error_drop_message (Msg_other 0))
         (logging (Debug_read_message (Msg_other 0) ''a'' ''peer'') example_conn_full))
        \<lparr>dropT := [(''a'', 60000000005)]\<rparr>)
   \<and> read (snd (snd (loopRead_iter 0 example_conn_full (Read_ok (example_frame ''a'' 2))
        Case_after 5))) = read example_conn_full"
proof -
  have sup: "map_of (dropT example_conn_suppressed) (LinkId (example_frame ''a'' 2)) =
      Some (60 * time_Second)"
    by (simp add: example_conn_suppressed_def example_frame_def)
  have live: "XType (example_frame ''a'' 2) \<noteq> Msg_keepalive
      \<and> map_of (dropT example_conn_full) (LinkId (example_frame ''a'' 2)) = None"
    by (simp add: example_conn_full_def example_conn_def example_frame_def)
  have fa: "XType (example_frame ''a'' 2) = Msg_other 0 \<and> LinkId (example_frame ''a'' 2) = ''a''
      \<and> From (example_frame ''a'' 2) = ''peer''"
    by (simp add: example_frame_def)
  have upd: "AList.update ''a'' 60000000005 (dropT example_conn_full) =
      [(''a'', 60000000005)]"
    by (simp add: example_conn_full_def example_conn_def)
  note main1 = loopRead_drop_policy
    [of example_conn_suppressed "example_frame ''a'' 2" "60 * time_Second" 0 Case_send 5
        "example_frame ''a'' 2"]
  note main2 = loopRead_drop_policy
    [of example_conn_full "example_frame ''a'' 2" "60 * time_Second" 0 Case_send 5
        "example_frame ''a'' 2"]
  from main1 sup fa have w1:
    "loopRead_iter 0 example_conn_suppressed (Read_ok (example_frame ''a'' 2)) Case_send 5 =
     (Continue, 0,
      logging (Debug_read_message (Msg_other 0) ''a'' ''peer'') example_conn_suppressed)"
    by (simp del: loopRead_iter.simps)
  from main2 live fa have w2:
    "loopRead_iter 0 example_conn_full (Read_ok (example_frame ''a'' 2)) Case_after 5 =
     (Continue, 0,
      (logging (Error_drop_message (Msg_other 0))
         (logging (Debug_read_message (Msg_other 0) ''a'' ''peer'') example_conn_full))
        \<lparr>dropT := [(''a'', 60000000005)]\<rparr>)"
    by (simp del: loopRead_iter.simps add: upd)
  from main2 live have w3:
    "read (snd (snd (loopRead_iter 0 example_conn_full (Read_ok (example_frame ''a'' 2))
        Case_after 5))) = read example_conn_full"
    by blast
  from w1 w2 w3 show ?thesis by (intro conjI)
qed

subsection \<open>The sweep of the drop map\<close>

lemma map_of_foldl_delete:
  "map_of (foldl (\<lambda>d k. AList.delete k d) d ks) k = (if k \<in> set ks then None else map_of d k)"
  by (induction ks arbitrary: d) (auto simp: delete_conv')

lemma distinct_foldl_delete:
  "distinct (map fst d) \<Longrightarrow> distinct (map fst (foldl (\<lambda>d k. AList.delete k d) d ks))"
  by (induction ks arbitrary: d) (auto simp: distinct_delete)

lemma checkDrop_scan_iff:
  "distinct (map fst d) \<Longrightarrow>
   k \<in> set (checkDrop_scan d now) \<longleftrightarrow> (\<exists>t. map_of d k = Some t \<and> t < now)"
  by (force simp: checkDrop_scan_def time_After_def)

lemma checkDrop_iter_lookup:
  assumes "distinct (map fst (dropT c))"
  shows "map_of (dropT (checkDrop_iter c now)) k =
     (case map_of (dropT c) k of
        None \<Rightarrow> None
      | Some t \<Rightarrow> if t < now then None else Some t)"
  using checkDrop_scan_iff[OF assms, of k now]
  by (auto simp: checkDrop_iter_def Let_def map_of_foldl_delete split: option.split)

lemma checkDrop_iter_distinct:
  "distinct (map fst (dropT c)) \<Longrightarrow> distinct (map fst (dropT (checkDrop_iter c now)))"
  by (simp add: checkDrop_iter_def Let_def distinct_foldl_delete)

lemma checkDrop_iter_others:
  "read (checkDrop_iter c now) = read c \<and> unknownRead (checkDrop_iter c now) = unknownRead c"
  by (simp add: checkDrop_iter_def Let_def)

lemma checkDrop_loop_time:
  "snd (checkDrop_loop c now ls) = now + int (length ls) * time_Second + int (sum_list ls)"
  by (induction ls arbitrary: c now) (simp_all add: algebra_simps)

lemma checkDrop_loop_lookup:
  "distinct (map fst (dropT c)) \<Longrightarrow>
   map_of (dropT (fst (checkDrop_loop c now ls))) k =
     (case map_of (dropT c) k of
        None \<Rightarrow> None
      | Some t \<Rightarrow> if ls \<noteq> [] \<and> t < snd (checkDrop_loop c now ls) then None else Some t)"
proof (induction ls arbitrary: c now)
  case Nil
  then show ?case by (simp split: option.split)
next
  case (Cons late ls)
  let ?now1 = "now + time_Second + int late"
  let ?c1 = "checkDrop_iter c ?now1"
  have mono: "?now1 \<le> snd (checkDrop_loop ?c1 ?now1 ls)"
    by (simp add: checkDrop_loop_time time_Second_def)
  have last: "ls = [] \<Longrightarrow> snd (checkDrop_loop ?c1 ?now1 ls) = ?now1" by simp
  from Cons.IH[OF checkDrop_iter_distinct[OF Cons.prems], of ?now1]
  have "map_of (dropT (fst (checkDrop_loop ?c1 ?now1 ls))) k =
     (case map_of (dropT ?c1) k of
        None \<Rightarrow> None
      | Some t \<Rightarrow> if ls \<noteq> [] \<and> t < snd (checkDrop_loop ?c1 ?now1 ls) then None else Some t)" .
  with checkDrop_iter_lookup[OF Cons.prems, of ?now1 k] mono last
  show ?case by (auto split: option.split)
qed

text \<open>
  C5, as the code has it. One sweep at time \<open>now\<close> removes from the drop map exactly the
  entries whose time is before \<open>now\<close> and keeps the others; the sweeping loop, after at
  least one pass, has removed exactly the entries whose time is before its last sweep,
  and its passes are a second apart plus the lateness of each wake-up. The read loop
  looks only for the presence of an entry: while the entry is there the frame is
  discarded, whatever the time. Once a sweep later than the entry's time has run, a frame
  for that link is routed as any other: appended to its channel (or to the unknown
  channel) when the send case fires and there is room.
\<close>

theorem checkDrop_removes_expired:
  assumes "distinct (map fst (dropT c))"
  shows "map_of (dropT (checkDrop_iter c now)) k =
           (case map_of (dropT c) k of
              None \<Rightarrow> None
            | Some t \<Rightarrow> if t < now then None else Some t)
         \<and> map_of (dropT (fst (checkDrop_loop c start ls))) k =
           (case map_of (dropT c) k of
              None \<Rightarrow> None
            | Some t \<Rightarrow>
                if ls \<noteq> [] \<and> t < snd (checkDrop_loop c start ls) then None else Some t)
         \<and> snd (checkDrop_loop c start ls) =
             start + int (length ls) * time_Second + int (sum_list ls)
         \<and> (map_of (dropT c) (LinkId msg) = Some expiry \<longrightarrow>
              loopRead_iter timeout c (Read_ok msg) sel arrival =
                (Continue, 0,
                 if XType msg = Msg_keepalive then c
                 else logging (Debug_read_message (XType msg) (LinkId msg) (From msg)) c))
         \<and> (map_of (dropT c) (LinkId msg) = Some expiry \<and> expiry < now
              \<and> XType msg \<noteq> Msg_keepalive \<longrightarrow>
              loopRead_iter timeout (checkDrop_iter c now) (Read_ok msg) Case_send arrival =
                (case map_of (read c) (LinkId msg) of
                   Some ch \<Rightarrow>
                     if has_room ch
                     then (Continue, 0,
                           (logging (Debug_read_message (XType msg) (LinkId msg) (From msg))
                              (checkDrop_iter c now))
                             \<lparr>read := AList.update (LinkId msg) (ch\<lparr>buf := buf ch @ [msg]\<rparr>)
                                         (read c)\<rparr>)
                     else (Waiting, 0,
                           logging (Debug_read_message (XType msg) (LinkId msg) (From msg))
                             (checkDrop_iter c now))
                 | None \<Rightarrow>
                     if has_room (unknownRead c)
                     then (Continue, 0,
                           (logging (Debug_read_message (XType msg) (LinkId msg) (From msg))
                              (checkDrop_iter c now))
                             \<lparr>unknownRead :=
                                (unknownRead c)\<lparr>buf := buf (unknownRead c) @ [msg]\<rparr>\<rparr>)
                     else (Waiting, 0,
                           logging (Debug_read_message (XType msg) (LinkId msg) (From msg))
                             (checkDrop_iter c now))))"
proof -
  note sweep = checkDrop_iter_lookup[OF assms, of now]
  have after: "map_of (dropT c) (LinkId msg) = Some expiry \<and> expiry < now
       \<and> XType msg \<noteq> Msg_keepalive \<Longrightarrow>
     map_of (dropT (checkDrop_iter c now)) (LinkId msg) = None \<and> XType msg \<noteq> Msg_keepalive"
    using sweep[of "LinkId msg"] by simp
  have deliver: "map_of (dropT c) (LinkId msg) = Some expiry \<and> expiry < now
              \<and> XType msg \<noteq> Msg_keepalive \<longrightarrow>
              loopRead_iter timeout (checkDrop_iter c now) (Read_ok msg) Case_send arrival =
                (case map_of (read c) (LinkId msg) of
                   Some ch \<Rightarrow>
                     if has_room ch
                     then (Continue, 0,
                           (logging (Debug_read_message (XType msg) (LinkId msg) (From msg))
                              (checkDrop_iter c now))
                             \<lparr>read := AList.update (LinkId msg) (ch\<lparr>buf := buf ch @ [msg]\<rparr>)
                                         (read c)\<rparr>)
                     else (Waiting, 0,
                           logging (Debug_read_message (XType msg) (LinkId msg) (From msg))
                             (checkDrop_iter c now))
                 | None \<Rightarrow>
                     if has_room (unknownRead c)
                     then (Continue, 0,
                           (logging (Debug_read_message (XType msg) (LinkId msg) (From msg))
                              (checkDrop_iter c now))
                             \<lparr>unknownRead :=
                                (unknownRead c)\<lparr>buf := buf (unknownRead c) @ [msg]\<rparr>\<rparr>)
                     else (Waiting, 0,
                           logging (Debug_read_message (XType msg) (LinkId msg) (From msg))
                             (checkDrop_iter c now)))"
  proof
    assume h: "map_of (dropT c) (LinkId msg) = Some expiry \<and> expiry < now
              \<and> XType msg \<noteq> Msg_keepalive"
    from after[OF h] have a1: "XType msg \<noteq> Msg_keepalive"
      and a2: "map_of (dropT (checkDrop_iter c now)) (LinkId msg) = None" by simp_all
    have r: "read (checkDrop_iter c now) = read c"
      and u: "unknownRead (checkDrop_iter c now) = unknownRead c"
      using checkDrop_iter_others[of c now] by simp_all
    from loopRead_iter_send[OF a1 a2, of timeout arrival]
    show "loopRead_iter timeout (checkDrop_iter c now) (Read_ok msg) Case_send arrival =
                (case map_of (read c) (LinkId msg) of
                   Some ch \<Rightarrow>
                     if has_room ch
                     then (Continue, 0,
                           (logging (Debug_read_message (XType msg) (LinkId msg) (From msg))
                              (checkDrop_iter c now))
                             \<lparr>read := AList.update (LinkId msg) (ch\<lparr>buf := buf ch @ [msg]\<rparr>)
                                         (read c)\<rparr>)
                     else (Waiting, 0,
                           logging (Debug_read_message (XType msg) (LinkId msg) (From msg))
                             (checkDrop_iter c now))
                 | None \<Rightarrow>
                     if has_room (unknownRead c)
                     then (Continue, 0,
                           (logging (Debug_read_message (XType msg) (LinkId msg) (From msg))
                              (checkDrop_iter c now))
                             \<lparr>unknownRead :=
                                (unknownRead c)\<lparr>buf := buf (unknownRead c) @ [msg]\<rparr>\<rparr>)
                     else (Waiting, 0,
                           logging (Debug_read_message (XType msg) (LinkId msg) (From msg))
                             (checkDrop_iter c now)))"
      unfolding r u .
  qed
  have held: "map_of (dropT c) (LinkId msg) = Some expiry \<longrightarrow>
              loopRead_iter timeout c (Read_ok msg) sel arrival =
                (Continue, 0,
                 if XType msg = Msg_keepalive then c
                 else logging (Debug_read_message (XType msg) (LinkId msg) (From msg)) c)"
    using loopRead_iter_suppressed[of c msg expiry timeout sel arrival] by blast
  from sweep[of k] checkDrop_loop_lookup[OF assms, of start ls k]
    checkDrop_loop_time[of c start ls] held deliver
  show ?thesis by (intro conjI)
qed

theorem checkDrop_removes_expired_witness:
  "map_of (dropT (checkDrop_iter example_conn_suppressed (61 * time_Second))) ''a'' = None
   \<and> map_of (dropT (fst (checkDrop_loop example_conn_suppressed (59 * time_Second) [0, 1000])))
        ''a'' = None
   \<and> snd (checkDrop_loop example_conn_suppressed (59 * time_Second) [0, 1000]) =
        61 * time_Second + 1000
   \<and> loopRead_iter 0 example_conn_suppressed (Read_ok (example_frame ''a'' 2)) Case_send
        (60 * time_Second + 500000000) =
       (Continue, 0,
        logging (Debug_read_message (Msg_other 0) ''a'' ''peer'') example_conn_suppressed)
   \<and> loopRead_iter 0 (checkDrop_iter example_conn_suppressed (61 * time_Second))
        (Read_ok (example_frame ''a'' 2)) Case_send (61 * time_Second + 500000000) =
       (Continue, 0,
        (logging (Debug_read_message (Msg_other 0) ''a'' ''peer'')
           (checkDrop_iter example_conn_suppressed (61 * time_Second)))
          \<lparr>read := [(''a'', \<lparr>cap = 10, buf = [example_frame ''a'' 1, example_frame ''a'' 2]\<rparr>)]\<rparr>)"
proof -
  have dist: "distinct (map fst (dropT example_conn_suppressed))"
    by (simp add: example_conn_suppressed_def)
  have entry: "map_of (dropT example_conn_suppressed) ''a'' = Some (60 * time_Second)"
    by (simp add: example_conn_suppressed_def)
  have lt: "60 * time_Second < 61 * time_Second" by (simp add: time_Second_def)
  have fa: "XType (example_frame ''a'' 2) = Msg_other 0" "LinkId (example_frame ''a'' 2) = ''a''"
      "From (example_frame ''a'' 2) = ''peer''"
    by (simp_all add: example_frame_def)
  have rd: "map_of (read example_conn_suppressed) ''a'' =
      Some \<lparr>cap = 10, buf = [example_frame ''a'' 1]\<rparr>"
    by (simp add: example_conn_suppressed_def example_conn_a_def)
  have room: "has_room \<lparr>cap = 10, buf = [example_frame ''a'' 1]\<rparr>" by (simp add: has_room_def)
  have upd: "AList.update ''a'' \<lparr>cap = 10, buf = [example_frame ''a'' 1, example_frame ''a'' 2]\<rparr>
      (read example_conn_suppressed) =
      [(''a'', \<lparr>cap = 10, buf = [example_frame ''a'' 1, example_frame ''a'' 2]\<rparr>)]"
    by (simp add: example_conn_suppressed_def example_conn_a_def)
  note main = checkDrop_removes_expired
    [OF dist, of "61 * time_Second" "''a''" "59 * time_Second" "[0, 1000]"
       "example_frame ''a'' 2" "60 * time_Second" 0 Case_send "60 * time_Second + 500000000"]
  from main entry lt
  have w1: "map_of (dropT (checkDrop_iter example_conn_suppressed (61 * time_Second))) ''a'' = None"
    by simp
  from main have w3: "snd (checkDrop_loop example_conn_suppressed (59 * time_Second) [0, 1000]) =
        61 * time_Second + 1000"
    by (simp del: checkDrop_loop.simps loopRead_iter.simps)
  from main entry w3
  have w2: "map_of (dropT (fst (checkDrop_loop example_conn_suppressed (59 * time_Second)
      [0, 1000]))) ''a'' = None"
    by (simp del: checkDrop_loop.simps loopRead_iter.simps add: time_Second_def)
  from main entry fa
  have w4: "loopRead_iter 0 example_conn_suppressed (Read_ok (example_frame ''a'' 2)) Case_send
        (60 * time_Second + 500000000) =
       (Continue, 0,
        logging (Debug_read_message (Msg_other 0) ''a'' ''peer'') example_conn_suppressed)"
    by (simp del: checkDrop_loop.simps loopRead_iter.simps)
  note later = checkDrop_removes_expired
    [OF dist, of "61 * time_Second" "''a''" "59 * time_Second" "[0, 1000]"
       "example_frame ''a'' 2" "60 * time_Second" 0 Case_send "61 * time_Second + 500000000"]
  from later entry lt fa rd room upd
  have w5: "loopRead_iter 0 (checkDrop_iter example_conn_suppressed (61 * time_Second))
        (Read_ok (example_frame ''a'' 2)) Case_send (61 * time_Second + 500000000) =
       (Continue, 0,
        (logging (Debug_read_message (Msg_other 0) ''a'' ''peer'')
           (checkDrop_iter example_conn_suppressed (61 * time_Second)))
          \<lparr>read := [(''a'', \<lparr>cap = 10, buf = [example_frame ''a'' 1, example_frame ''a'' 2]\<rparr>)]\<rparr>)"
    by (simp del: checkDrop_loop.simps loopRead_iter.simps)
  from w1 w2 w3 w4 w5 show ?thesis by (intro conjI)
qed

text \<open>
  C5, as stated, fails: link "a" is suppressed until 60 s; a frame for "a" read at
  60.5 s, before the next sweep, is discarded although its channel has room.
\<close>

theorem suppression_outlasts_window_counterexample:
  "map_of (dropT example_conn_suppressed) ''a'' = Some (60 * time_Second)
   \<and> time_After (60 * time_Second + 500000000) (60 * time_Second)
   \<and> ChanRead example_conn_suppressed ''a'' = Some \<lparr>cap = 10, buf = [example_frame ''a'' 1]\<rparr>
   \<and> has_room \<lparr>cap = 10, buf = [example_frame ''a'' 1]\<rparr>
   \<and> loopRead_iter 0 example_conn_suppressed (Read_ok (example_frame ''a'' 2)) Case_send
        (60 * time_Second + 500000000) =
       (Continue, 0,
        logging (Debug_read_message (Msg_other 0) ''a'' ''peer'') example_conn_suppressed)
   \<and> ChanRead (logging (Debug_read_message (Msg_other 0) ''a'' ''peer'') example_conn_suppressed)
        ''a'' = Some \<lparr>cap = 10, buf = [example_frame ''a'' 1]\<rparr>
   \<and> example_frame ''a'' 2 \<noteq> example_frame ''a'' 1"
  by (simp add: example_conn_suppressed_def example_conn_a_def example_conn_def
        example_frame_def time_After_def time_Second_def has_room_def ChanRead_def
        logging_def Let_def)

subsection \<open>The link registry\<close>

text \<open>
  C7. \<^verbatim>\<open>AddLink\<close> on an unregistered id registers an empty channel of capacity 10 for it
  and leaves the other links alone; on a registered id it leaves the registry as it is,
  buffered messages included; so a second \<^verbatim>\<open>AddLink\<close> of the same id changes nothing in
  the registry. Apart from the registry, \<^verbatim>\<open>AddLink\<close> only writes a log line.
\<close>

theorem AddLink_idempotent:
  "(map_of (read c) lid1 = None \<longrightarrow>
      ChanRead (AddLink c lid1) lid1 = Some \<lparr>cap = 10, buf = []\<rparr>
      \<and> (\<forall>l. l \<noteq> lid1 \<longrightarrow> ChanRead (AddLink c lid1) l = ChanRead c l))
   \<and> (map_of (read c) lid2 = Some ch \<longrightarrow> read (AddLink c lid2) = read c)
   \<and> read (AddLink (AddLink c lid) lid) = read (AddLink c lid)
   \<and> AddLink c lid = (logging (Info_add_link lid) c)\<lparr>read := read (AddLink c lid)\<rparr>"
  by (simp add: AddLink_def Let_def logging_def ChanRead_def make_chan_def update_conv')

theorem AddLink_idempotent_witness:
  "ChanRead (AddLink example_conn_a ''b'') ''b'' = Some \<lparr>cap = 10, buf = []\<rparr>
   \<and> ChanRead (AddLink example_conn_a ''b'') ''a'' =
       Some \<lparr>cap = 10, buf = [example_frame ''a'' 1]\<rparr>
   \<and> read (AddLink example_conn_a ''a'') =
       [(''a'', \<lparr>cap = 10, buf = [example_frame ''a'' 1]\<rparr>)]
   \<and> read (AddLink (AddLink example_conn_a ''b'') ''b'') =
       [(''a'', \<lparr>cap = 10, buf = [example_frame ''a'' 1]\<rparr>), (''b'', \<lparr>cap = 10, buf = []\<rparr>)]"
proof -
  have absent: "map_of (read example_conn_a) ''b'' = None"
    by (simp add: example_conn_a_def)
  have present: "map_of (read example_conn_a) ''a'' =
      Some \<lparr>cap = 10, buf = [example_frame ''a'' 1]\<rparr>"
    by (simp add: example_conn_a_def)
  have other: "ChanRead example_conn_a ''a'' = Some \<lparr>cap = 10, buf = [example_frame ''a'' 1]\<rparr>"
    by (simp add: example_conn_a_def ChanRead_def)
  have rd: "read example_conn_a = [(''a'', \<lparr>cap = 10, buf = [example_frame ''a'' 1]\<rparr>)]"
    by (simp add: example_conn_a_def)
  have once: "read (AddLink example_conn_a ''b'') =
      [(''a'', \<lparr>cap = 10, buf = [example_frame ''a'' 1]\<rparr>), (''b'', \<lparr>cap = 10, buf = []\<rparr>)]"
    by (simp add: AddLink_def Let_def logging_def example_conn_a_def make_chan_def)
  note main = AddLink_idempotent
    [of example_conn_a "''b''" "''a''" "\<lparr>cap = 10, buf = [example_frame ''a'' 1]\<rparr>" "''b''"]
  from main absent have a: "ChanRead (AddLink example_conn_a ''b'') ''b'' = Some \<lparr>cap = 10, buf = []\<rparr>"
    and b: "ChanRead (AddLink example_conn_a ''b'') ''a'' = ChanRead example_conn_a ''a''"
    by simp_all
  from main present have c: "read (AddLink example_conn_a ''a'') = read example_conn_a"
    by blast
  from main have d: "read (AddLink (AddLink example_conn_a ''b'') ''b'') =
      read (AddLink example_conn_a ''b'')"
    by blast
  from a b c d other rd once show ?thesis by simp
qed

subsection \<open>Reset\<close>

text \<open>
  C6, as stated, fails: with one frame waiting in the channel of "a", \<^verbatim>\<open>Reset\<close> puts its
  message behind that frame, and the next item read is the frame, not the message.
\<close>

theorem Reset_not_next_counterexample:
  "map_of (read example_conn_a) ''a'' = Some \<lparr>cap = 10, buf = [example_frame ''a'' 1]\<rparr>
   \<and> Reset example_conn_a ''a'' (example_frame ''a'' 2) =
       Done (example_conn_a
         \<lparr>read := [(''a'', \<lparr>cap = 10, buf = [example_frame ''a'' 1, example_frame ''a'' 2]\<rparr>)]\<rparr>)
   \<and> next_read (example_conn_a
         \<lparr>read := [(''a'', \<lparr>cap = 10, buf = [example_frame ''a'' 1, example_frame ''a'' 2]\<rparr>)]\<rparr>)
        ''a'' = Done (example_frame ''a'' 1)
   \<and> example_frame ''a'' 1 \<noteq> example_frame ''a'' 2"
  by (simp add: Reset_def next_read_def ChanRead_def example_conn_a_def example_conn_def
        example_frame_def)

lemma Reset_registered:
  "map_of (read c) lid = Some ch \<Longrightarrow> has_room ch \<Longrightarrow>
   Reset c lid msg = Done (c\<lparr>read := AList.update lid (ch\<lparr>buf := buf ch @ [msg]\<rparr>) (read c)\<rparr>)"
  by (simp add: Reset_def has_room_def)

text \<open>
  C6, as the code has it. On a registered id whose channel has room, \<^verbatim>\<open>Reset\<close> appends
  the message at the tail of the channel: the next item read is the head of the old
  buffer followed by the message, which is the message itself exactly when nothing was
  waiting; a frame for that link that the read loop delivers afterwards is placed behind
  the message. On a full channel \<^verbatim>\<open>Reset\<close> waits for a reader; on an unregistered id it
  blocks forever.
\<close>

theorem Reset_appends:
  "(map_of (read c) lid1 = Some ch \<and> has_room ch \<longrightarrow>
      Reset c lid1 msg =
        Done (c\<lparr>read := AList.update lid1 (ch\<lparr>buf := buf ch @ [msg]\<rparr>) (read c)\<rparr>)
      \<and> ChanRead (c\<lparr>read := AList.update lid1 (ch\<lparr>buf := buf ch @ [msg]\<rparr>) (read c)\<rparr>) lid1 =
          Some (ch\<lparr>buf := buf ch @ [msg]\<rparr>)
      \<and> next_read (c\<lparr>read := AList.update lid1 (ch\<lparr>buf := buf ch @ [msg]\<rparr>) (read c)\<rparr>) lid1 =
          Done (hd (buf ch @ [msg]))
      \<and> (buf ch = [] \<longrightarrow> hd (buf ch @ [msg]) = msg)
      \<and> (buf ch \<noteq> [] \<longrightarrow> hd (buf ch @ [msg]) = hd (buf ch))
      \<and> (XType frame \<noteq> Msg_keepalive \<and> LinkId frame = lid1
           \<and> map_of (dropT c) lid1 = None \<and> length (buf ch) + 1 < cap ch \<longrightarrow>
           ChanRead (snd (snd (loopRead_iter timeout
               (c\<lparr>read := AList.update lid1 (ch\<lparr>buf := buf ch @ [msg]\<rparr>) (read c)\<rparr>)
               (Read_ok frame) Case_send now))) lid1 =
             Some (ch\<lparr>buf := buf ch @ [msg, frame]\<rparr>)))
   \<and> (map_of (read c) lid2 = Some ch2 \<and> \<not> has_room ch2 \<longrightarrow> Reset c lid2 msg = Blocked)
   \<and> (map_of (read c) lid3 = None \<longrightarrow> Reset c lid3 msg = Blocked_forever)"
proof -
  let ?c' = "c\<lparr>read := AList.update lid1 (ch\<lparr>buf := buf ch @ [msg]\<rparr>) (read c)\<rparr>"
  have look: "map_of (read ?c') lid1 = Some (ch\<lparr>buf := buf ch @ [msg]\<rparr>)"
    by (simp add: update_conv')
  have nxt: "next_read ?c' lid1 = Done (hd (buf ch @ [msg]))"
    using look by (cases "buf ch") (simp_all add: next_read_def ChanRead_def)
  have later: "XType frame \<noteq> Msg_keepalive \<and> LinkId frame = lid1
           \<and> map_of (dropT c) lid1 = None \<and> length (buf ch) + 1 < cap ch \<longrightarrow>
           ChanRead (snd (snd (loopRead_iter timeout ?c' (Read_ok frame) Case_send now))) lid1 =
             Some (ch\<lparr>buf := buf ch @ [msg, frame]\<rparr>)"
  proof
    assume h: "XType frame \<noteq> Msg_keepalive \<and> LinkId frame = lid1
           \<and> map_of (dropT c) lid1 = None \<and> length (buf ch) + 1 < cap ch"
    then have a1: "XType frame \<noteq> Msg_keepalive"
      and a2: "map_of (dropT ?c') (LinkId frame) = None" by simp_all
    from h look have l2: "map_of (read ?c') (LinkId frame) = Some (ch\<lparr>buf := buf ch @ [msg]\<rparr>)"
      by simp
    from h have room: "has_room (ch\<lparr>buf := buf ch @ [msg]\<rparr>)" by (simp add: has_room_def)
    from loopRead_iter_send[OF a1 a2, of timeout now] l2 room h
    show "ChanRead (snd (snd (loopRead_iter timeout ?c' (Read_ok frame) Case_send now))) lid1 =
             Some (ch\<lparr>buf := buf ch @ [msg, frame]\<rparr>)"
      by (simp add: ChanRead_def logging_def update_conv')
  qed
  have full: "map_of (read c) lid2 = Some ch2 \<and> \<not> has_room ch2 \<longrightarrow> Reset c lid2 msg = Blocked"
    by (simp add: Reset_def has_room_def)
  have nil: "map_of (read c) lid3 = None \<longrightarrow> Reset c lid3 msg = Blocked_forever"
    by (simp add: Reset_def)
  have hd1: "buf ch = [] \<longrightarrow> hd (buf ch @ [msg]) = msg" by simp
  have hd2: "buf ch \<noteq> [] \<longrightarrow> hd (buf ch @ [msg]) = hd (buf ch)" by simp
  from Reset_registered[of c lid1 ch msg] look nxt later full nil hd1 hd2
  show ?thesis unfolding ChanRead_def by blast
qed

theorem Reset_appends_witness:
  "Reset example_conn_a ''a'' (example_frame ''a'' 2) =
     Done (example_conn_a\<lparr>read :=
       [(''a'', \<lparr>cap = 10, buf = [example_frame ''a'' 1, example_frame ''a'' 2]\<rparr>)]\<rparr>)
   \<and> next_read (example_conn_a\<lparr>read :=
       [(''a'', \<lparr>cap = 10, buf = [example_frame ''a'' 1, example_frame ''a'' 2]\<rparr>)]\<rparr>) ''a'' =
       Done (example_frame ''a'' 1)
   \<and> ChanRead (snd (snd (loopRead_iter 0
         (example_conn_a\<lparr>read :=
            [(''a'', \<lparr>cap = 10, buf = [example_frame ''a'' 1, example_frame ''a'' 2]\<rparr>)]\<rparr>)
         (Read_ok (example_frame ''a'' 3)) Case_send 0))) ''a'' =
       Some \<lparr>cap = 10,
             buf = [example_frame ''a'' 1, example_frame ''a'' 2, example_frame ''a'' 3]\<rparr>
   \<and> Reset example_conn_full ''a'' (example_frame ''a'' 2) = Blocked
   \<and> Reset example_conn_a ''b'' (example_frame ''a'' 2) = Blocked_forever"
proof -
  let ?ch = "\<lparr>cap = 10, buf = [example_frame ''a'' 1]\<rparr>"
  let ?full = "\<lparr>cap = 10, buf = replicate 10 (example_frame ''a'' 1)\<rparr>"
  have reg: "map_of (read example_conn_a) ''a'' = Some ?ch"
    by (simp add: example_conn_a_def)
  have room: "has_room ?ch" by (simp add: has_room_def)
  have upd: "AList.update ''a'' (?ch\<lparr>buf := buf ?ch @ [example_frame ''a'' 2]\<rparr>)
               (read example_conn_a) =
             [(''a'', \<lparr>cap = 10, buf = [example_frame ''a'' 1, example_frame ''a'' 2]\<rparr>)]"
    by (simp add: example_conn_a_def)
  have fr: "XType (example_frame ''a'' 3) \<noteq> Msg_keepalive \<and> LinkId (example_frame ''a'' 3) = ''a''
      \<and> map_of (dropT example_conn_a) ''a'' = None \<and> length (buf ?ch) + 1 < cap ?ch"
    by (simp add: example_frame_def example_conn_a_def example_conn_def)
  have nonempty: "buf ?ch \<noteq> [] \<and> hd (buf ?ch) = example_frame ''a'' 1" by simp
  have three: "?ch\<lparr>buf := buf ?ch @ [example_frame ''a'' 2, example_frame ''a'' 3]\<rparr> =
      \<lparr>cap = 10, buf = [example_frame ''a'' 1, example_frame ''a'' 2, example_frame ''a'' 3]\<rparr>"
    by simp
  note main = Reset_appends [of example_conn_a "''a''" ?ch "example_frame ''a'' 2"
      "example_frame ''a'' 3" 0 0 "''a''" ?ch "''b''"]
  note main_full = Reset_appends [of example_conn_full "''a''" ?full "example_frame ''a'' 2"
      "example_frame ''a'' 3" 0 0 "''a''" ?full "''b''"]
  have fullreg: "map_of (read example_conn_full) ''a'' = Some ?full \<and> \<not> has_room ?full"
    by (simp add: example_conn_full_def has_room_def)
  have unreg: "map_of (read example_conn_a) ''b'' = None"
    by (simp add: example_conn_a_def)
  from main reg room have w1: "Reset example_conn_a ''a'' (example_frame ''a'' 2) =
     Done (example_conn_a\<lparr>read :=
       [(''a'', \<lparr>cap = 10, buf = [example_frame ''a'' 1, example_frame ''a'' 2]\<rparr>)]\<rparr>)"
    unfolding upd by blast
  from main reg room nonempty have w2: "next_read (example_conn_a\<lparr>read :=
       [(''a'', \<lparr>cap = 10, buf = [example_frame ''a'' 1, example_frame ''a'' 2]\<rparr>)]\<rparr>) ''a'' =
       Done (example_frame ''a'' 1)"
    unfolding upd by simp
  from main reg room fr have w3: "ChanRead (snd (snd (loopRead_iter 0
         (example_conn_a\<lparr>read :=
            [(''a'', \<lparr>cap = 10, buf = [example_frame ''a'' 1, example_frame ''a'' 2]\<rparr>)]\<rparr>)
         (Read_ok (example_frame ''a'' 3)) Case_send 0))) ''a'' =
       Some \<lparr>cap = 10,
             buf = [example_frame ''a'' 1, example_frame ''a'' 2, example_frame ''a'' 3]\<rparr>"
    unfolding upd three by blast
  from main_full fullreg have w4: "Reset example_conn_full ''a'' (example_frame ''a'' 2) = Blocked"
    by blast
  from main unreg have w5: "Reset example_conn_a ''b'' (example_frame ''a'' 2) = Blocked_forever"
    by blast
  from w1 w2 w3 w4 w5 show ?thesis by (intro conjI)
qed

subsection \<open>The write loop\<close>

lemma loopWrite_iter_msg:
  assumes "conn c = Some cn" and "buf (write_chan c) = m # rest"
  shows "loopWrite_iter c Case_msg werr =
     (Continue,
      c\<lparr>write_chan := (write_chan c)\<lparr>buf := rest\<rparr>,
        conn := Some (cn\<lparr>written := written cn @
                  [(m\<lparr>From := ID (cfg c)\<rparr>, WriteTimeout (cfg c))]\<rparr>),
        logs := logs c @
          (case werr of None \<Rightarrow> [] | Some err \<Rightarrow> [Error_write_message (ID (cfg c)) err])\<rparr>)"
  using assms
  by (cases werr) (simp_all add: loopWrite_iter_def Let_def WriteMessage_def logging_def)

text \<open>
  C8. Over any run of the write loop that takes messages from the outbound queue, each
  message taken is handed to \<^verbatim>\<open>WriteMessage\<close> exactly once, in queue order, with its
  sender replaced by the local client ID and with the configured write timeout; it is
  gone from the queue whether the write succeeded or not; each failed write leaves one
  error in the log; and the loop goes on.
\<close>

theorem loopWrite_stamps_and_drops:
  assumes "conn c = Some cn" and "length werrs \<le> length (buf (write_chan c))"
  shows "loopWrite_loop c (map (Pair Case_msg) werrs) =
     (Continue,
      c\<lparr>write_chan := (write_chan c)\<lparr>buf := drop (length werrs) (buf (write_chan c))\<rparr>,
        conn := Some (cn\<lparr>written := written cn @
                  map (\<lambda>m. (m\<lparr>From := ID (cfg c)\<rparr>, WriteTimeout (cfg c)))
                    (take (length werrs) (buf (write_chan c)))\<rparr>),
        logs := logs c @
          concat (map (\<lambda>w. case w of None \<Rightarrow> []
                             | Some err \<Rightarrow> [Error_write_message (ID (cfg c)) err]) werrs)\<rparr>)"
  using assms
proof (induction werrs arbitrary: c cn)
  case Nil
  then show ?case by simp
next
  case (Cons w werrs)
  from Cons.prems(2) obtain m rest where q: "buf (write_chan c) = m # rest"
    by (cases "buf (write_chan c)") auto
  let ?cn1 = "cn\<lparr>written := written cn @ [(m\<lparr>From := ID (cfg c)\<rparr>, WriteTimeout (cfg c))]\<rparr>"
  let ?c1 = "c\<lparr>write_chan := (write_chan c)\<lparr>buf := rest\<rparr>,
        conn := Some ?cn1,
        logs := logs c @
          (case w of None \<Rightarrow> [] | Some err \<Rightarrow> [Error_write_message (ID (cfg c)) err])\<rparr>"
  have step: "loopWrite_iter c Case_msg w = (Continue, ?c1)"
    by (rule loopWrite_iter_msg[OF Cons.prems(1) q])
  have c1: "conn ?c1 = Some ?cn1" by simp
  from Cons.prems(2) q have len: "length werrs \<le> length (buf (write_chan ?c1))" by simp
  from Cons.IH[OF c1 len] step q show ?case by simp
qed

theorem loopWrite_stamps_and_drops_witness:
  "loopWrite_loop example_conn_queued [(Case_msg, Some ''broken pipe''), (Case_msg, None)] =
     (Continue,
      example_conn_queued
        \<lparr>write_chan := \<lparr>cap = 1024, buf = []\<rparr>,
         conn := Some \<lparr>secure = False,
                   written =
                     [(handshake_msg example_cfg, 5 * time_Second),
                      ((example_frame ''a'' 1)\<lparr>From := ''client-1''\<rparr>, 7 * time_Second),
                      ((example_frame ''b'' 2)\<lparr>From := ''client-1''\<rparr>, 7 * time_Second)],
                   closed = False\<rparr>,
         logs := [Info_connected ''relay.example:6154'',
                  Error_write_message ''client-1'' ''broken pipe'']\<rparr>)"
proof -
  let ?cn = "\<lparr>secure = False, written = [(handshake_msg example_cfg, 5 * time_Second)],
      closed = False\<rparr>"
  have cn: "conn example_conn_queued = Some ?cn"
    by (simp add: example_conn_queued_def example_conn_def)
  have len: "length [Some ''broken pipe'', None] \<le> length (buf (write_chan example_conn_queued))"
    by (simp add: example_conn_queued_def)
  have q: "buf (write_chan example_conn_queued) =
      [example_frame ''a'' 1, (example_frame ''b'' 2)\<lparr>From := ''forged''\<rparr>]"
    and wc: "write_chan example_conn_queued =
      \<lparr>cap = 1024, buf = [example_frame ''a'' 1, (example_frame ''b'' 2)\<lparr>From := ''forged''\<rparr>]\<rparr>"
    and cf: "cfg example_conn_queued = example_cfg"
    and lg: "logs example_conn_queued = [Info_connected ''relay.example:6154'']"
    by (simp_all add: example_conn_queued_def example_conn_def)
  have idc: "ID example_cfg = ''client-1''" and wt: "WriteTimeout example_cfg = 7 * time_Second"
    by (simp_all add: example_cfg_def)
  from loopWrite_stamps_and_drops[OF cn len]
  show ?thesis
    by (simp del: loopWrite_loop.simps add: q wc cf lg idc wt)
qed

subsection \<open>Construction\<close>

text \<open>
  C9. When the dial and the handshake write succeed, \<^verbatim>\<open>New\<close> has handed exactly one
  frame to \<^verbatim>\<open>WriteMessage\<close>: of type handshake, from the configured client ID, to
  "server", carrying the configured key, with a timeout of 5 seconds (5 * 10^9
  nanoseconds); and it has started the four loops. When the dial fails, or the handshake
  write fails, \<^verbatim>\<open>New\<close> ends with that error and has started no loop. \<^verbatim>\<open>writeHandshake\<close>
  itself makes that one call whatever the outcome of the write.
\<close>

theorem New_handshake:
  "New cf Dial_ok None =
     (Inr \<lparr>cfg = cf,
           conn = Some \<lparr>secure = UseSSL cf,
                        written =
                          [(\<lparr>XType = Msg_handshake, From = ID cf, To = ''server'',
                             LinkId = [], Payload = Msg_Hsp (Enc cf)\<rparr>,
                            5 * 1000000000)],
                        closed = False\<rparr>,
           read = [], unknownRead = \<lparr>cap = 1024, buf = []\<rparr>,
           write_chan = \<lparr>cap = 1024, buf = []\<rparr>, dropT = [], ctx_done = False,
           logs = [Info_connected (Server cf)]\<rparr>,
      [Go_loopRead, Go_loopWrite, Go_keepalive, Go_checkDrop])
   \<and> New cf (Dial_error err) werr = (Inl err, [])
   \<and> New cf Dial_ok (Some err) = (Inl err, [])
   \<and> writeHandshake cn cf werr =
       (werr,
        cn\<lparr>written := written cn @
           [(\<lparr>XType = Msg_handshake, From = ID cf, To = ''server'', LinkId = [],
              Payload = Msg_Hsp (Enc cf)\<rparr>, 5 * 1000000000)]\<rparr>)"
  by (simp add: New_def connect_def writeHandshake_def WriteMessage_def NewConn_def
        handshake_msg_def logging_def make_chan_def time_Second_def)
end
